theory Spec2Isabelle
  imports Main "HOL-Library.Word"
begin

unbundle bit_operations_syntax

section \<open>JavaScript values and strings\<close>

text \<open>
  The server is JavaScript on Node with a Firebase Realtime Database behind it. A stored
  leaf is absent, a boolean, a number or a string; \<open>JUndef\<close> stands for an absent field
  (\<open>undefined\<close> when read from the object that \<open>snap.val()\<close> returns). Numbers are
  modelled as mathematical integers: fractional numbers and integers beyond the exactly
  representable range of a double are outside the model.

  Strings are lists of code units below 256, read as the characters U+0000 to U+00FF.
  On these, \<open>trim\<close> removes the seven white space and line terminator characters, and
  \<open>toLowerCase\<close> moves \<open>A\<close> to \<open>Z\<close> and U+00C0 to U+00DE (without the
  multiplication sign U+00D7) up by 32. \<open>toUpperCase\<close> moves \<open>a\<close> to \<open>z\<close> and
  U+00E0 to U+00FE (without the division sign U+00F7) down by 32 and turns the sharp s
  U+00DF into the two letters \<open>SS\<close>. The upper case of the micro sign U+00B5 and of
  U+00FF lies above U+00FF; the model leaves these two characters as they are, and
  \<open>upper_in_range\<close> excludes them where a statement depends on the upper case of a
  string.
\<close>

datatype jsval = JUndef | JBool bool | JNum int | JStr string

fun truthy :: "jsval \<Rightarrow> bool" where
  "truthy JUndef = False"
| "truthy (JBool b) = b"
| "truthy (JNum n) = (n \<noteq> 0)"
| "truthy (JStr s) = (s \<noteq> [])"

definition nullish_or :: "jsval \<Rightarrow> jsval \<Rightarrow> jsval" where
  \<comment> \<open>\<open>v ?? d\<close>\<close>
  "nullish_or v d = (if v = JUndef then d else v)"

definition or_else :: "jsval \<Rightarrow> jsval \<Rightarrow> jsval" where
  \<comment> \<open>\<open>v || d\<close>\<close>
  "or_else v d = (if truthy v then v else d)"

definition is_ws :: "char \<Rightarrow> bool" where
  \<comment> \<open>the white space and line terminator characters below 256\<close>
  "is_ws c = (of_char c \<in> {9, 10, 11, 12, 13, 32, 160 :: nat})"

definition trim :: "string \<Rightarrow> string" where
  "trim s = rev (dropWhile is_ws (rev (dropWhile is_ws s)))"

definition toUpperChar :: "char \<Rightarrow> char" where
  "toUpperChar c =
     (let n = (of_char c :: nat)
      in if (97 \<le> n \<and> n \<le> 122) \<or> (224 \<le> n \<and> n \<le> 254 \<and> n \<noteq> 247)
         then char_of (n - 32) else c)"

definition toLowerChar :: "char \<Rightarrow> char" where
  "toLowerChar c =
     (let n = (of_char c :: nat)
      in if (65 \<le> n \<and> n \<le> 90) \<or> (192 \<le> n \<and> n \<le> 222 \<and> n \<noteq> 215)
         then char_of (n + 32) else c)"

definition upperChars :: "char \<Rightarrow> string" where
  \<comment> \<open>the upper case of a one-character string\<close>
  "upperChars c = (if of_char c = (223 :: nat) then ''SS'' else [toUpperChar c])"

definition toUpperCase :: "string \<Rightarrow> string" where
  "toUpperCase s = concat (map upperChars s)"


definition toLowerCase :: "string \<Rightarrow> string" where
  "toLowerCase s = map toLowerChar s"

fun startsWith :: "string \<Rightarrow> string \<Rightarrow> bool" where
  "startsWith s [] = True"
| "startsWith [] (p # ps) = False"
| "startsWith (c # cs) (p # ps) = (c = p \<and> startsWith cs ps)"

fun includes_str :: "string \<Rightarrow> string \<Rightarrow> bool" where
  \<comment> \<open>\<open>s.includes(p)\<close>: \<open>p\<close> occurs in \<open>s\<close> as a substring\<close>
  "includes_str [] p = (p = [])"
| "includes_str (c # cs) p = (startsWith (c # cs) p \<or> includes_str cs p)"

fun split_on :: "char \<Rightarrow> string \<Rightarrow> string list" where
  \<comment> \<open>\<open>s.split(sep)\<close> for a one-character separator\<close>
  "split_on sep [] = [[]]"
| "split_on sep (c # cs) =
     (if c = sep then [] # split_on sep cs
      else (case split_on sep cs of [] \<Rightarrow> [[c]] | w # ws \<Rightarrow> (c # w) # ws))"

definition is_digit :: "char \<Rightarrow> bool" where
  "is_digit c = (48 \<le> (of_char c :: nat) \<and> (of_char c :: nat) \<le> 57)"

definition digit_val :: "char \<Rightarrow> nat" where
  "digit_val c = of_char c - 48"

definition digits_val :: "string \<Rightarrow> nat" where
  "digits_val ds = foldl (\<lambda>a c. 10 * a + digit_val c) 0 ds"

definition parseInt_str :: "string \<Rightarrow> int option" where
  \<comment> \<open>\<open>parseInt(s, 10)\<close>: leading white space, an optional sign, then the longest run
      of decimal digits; \<open>None\<close> is \<open>NaN\<close>\<close>
  "parseInt_str s =
     (let s1 = dropWhile is_ws s;
          neg = (case s1 of [] \<Rightarrow> False | c # _ \<Rightarrow> c = CHR ''-'');
          s2 = (case s1 of [] \<Rightarrow> [] | c # r \<Rightarrow> if c = CHR ''-'' \<or> c = CHR ''+'' then r else s1);
          ds = takeWhile is_digit s2
      in if ds = [] then None
         else Some (if neg then - int (digits_val ds) else int (digits_val ds)))"

fun parseInt10 :: "jsval \<Rightarrow> int option" where
  \<comment> \<open>\<open>parseInt(v, 10)\<close>; the argument is converted to a string first, so \<open>undefined\<close>
      and the booleans give \<open>NaN\<close>\<close>
  "parseInt10 JUndef = None"
| "parseInt10 (JBool b) = None"
| "parseInt10 (JNum n) = Some n"
| "parseInt10 (JStr s) = parseInt_str s"

fun show_nat :: "nat \<Rightarrow> string" where
  "show_nat n =
     (if n < 10 then [char_of (48 + n)]
      else show_nat (n div 10) @ [char_of (48 + n mod 10)])"

declare show_nat.simps [simp del]

definition show_int :: "int \<Rightarrow> string" where
  "show_int i = (if i < 0 then CHR ''-'' # show_nat (nat (- i)) else show_nat (nat i))"

definition padStart :: "nat \<Rightarrow> char \<Rightarrow> string \<Rightarrow> string" where
  "padStart w c s = replicate (w - length s) c @ s"

text \<open>
  Comparisons of numbers where either side may be \<open>NaN\<close>: every comparison with
  \<open>NaN\<close> is false, and \<open>NaN === x\<close> is false as well.
\<close>

definition js_ge :: "int option \<Rightarrow> int option \<Rightarrow> bool" where
  "js_ge a b = (case (a, b) of (Some x, Some y) \<Rightarrow> x \<ge> y | _ \<Rightarrow> False)"

definition js_gt :: "int option \<Rightarrow> int option \<Rightarrow> bool" where
  "js_gt a b = (case (a, b) of (Some x, Some y) \<Rightarrow> x > y | _ \<Rightarrow> False)"

definition js_lt :: "int option \<Rightarrow> int option \<Rightarrow> bool" where
  "js_lt a b = (case (a, b) of (Some x, Some y) \<Rightarrow> x < y | _ \<Rightarrow> False)"

definition js_eq :: "int option \<Rightarrow> int option \<Rightarrow> bool" where
  "js_eq a b = (case (a, b) of (Some x, Some y) \<Rightarrow> x = y | _ \<Rightarrow> False)"

definition js_add :: "int option \<Rightarrow> int \<Rightarrow> int option" where
  "js_add a k = map_option (\<lambda>x. x + k) a"

section \<open>Clock and calendar\<close>

text \<open>
  An instant is a number of milliseconds since the epoch, as \<open>Date.now()\<close> and
  \<open>getTime()\<close> give it; \<open>None\<close> is an invalid date. The getters used by
  \<open>formatDateTime\<close> and the constructor \<open>new Date(y, m, d)\<close> work in the
  server's local time, which is \<open>tz\<close> milliseconds ahead of UTC; the offset is a
  parameter and is fixed (no daylight-saving change inside the model).
\<close>

definition ms_per_day :: int where
  "ms_per_day = 86400000"

definition days_from_civil :: "int \<Rightarrow> int \<Rightarrow> int \<Rightarrow> int" where
  \<comment> \<open>day number of the first day of month \<open>m\<close> (1..12) of year \<open>y\<close>, plus \<open>d - 1\<close>\<close>
  "days_from_civil y m d =
     (let y1 = (if m \<le> 2 then y - 1 else y);
          era = y1 div 400;
          yoe = y1 - era * 400;
          doy = (153 * (if m > 2 then m - 3 else m + 9) + 2) div 5 + d - 1;
          doe = yoe * 365 + yoe div 4 - yoe div 100 + doy
      in era * 146097 + doe - 719468)"

definition civil_from_days :: "int \<Rightarrow> int \<times> int \<times> int" where
  "civil_from_days z =
     (let z1 = z + 719468;
          era = z1 div 146097;
          doe = z1 - era * 146097;
          yoe = (doe - doe div 1460 + doe div 36524 - doe div 146096) div 365;
          doy = doe - (365 * yoe + yoe div 4 - yoe div 100);
          mp = (5 * doy + 2) div 153;
          d = doy - (153 * mp + 2) div 5 + 1;
          m = (if mp < 10 then mp + 3 else mp - 9);
          y = yoe + era * 400
      in (if m \<le> 2 then y + 1 else y, m, d))"

definition mkDate :: "int \<Rightarrow> int option \<Rightarrow> int option \<Rightarrow> int option \<Rightarrow> int option" where
  \<comment> \<open>\<open>new Date(y, mi, d)\<close> with a month index \<open>mi\<close> counted from 0: a \<open>NaN\<close>
      argument gives an invalid date, a year 0..99 means 1900 + year, month and day
      overflow into the neighbouring months and years\<close>
  "mkDate tz y mi d =
     (case (y, mi, d) of
        (Some yv, Some miv, Some dv) \<Rightarrow>
          (let yy = (if 0 \<le> yv \<and> yv \<le> 99 then 1900 + yv else yv)
           in Some (days_from_civil (yy + miv div 12) (miv mod 12 + 1) dv * ms_per_day - tz))
      | _ \<Rightarrow> None)"

definition pad2 :: "int \<Rightarrow> string" where
  \<comment> \<open>\<open>String(n).padStart(2, "0")\<close>\<close>
  "pad2 n = padStart 2 (CHR ''0'') (show_int n)"

definition formatDateTime :: "int \<Rightarrow> int \<Rightarrow> string" where
  "formatDateTime tz now =
     (let (y, m, d) = civil_from_days ((now + tz) div ms_per_day);
          tod = (now + tz) mod ms_per_day;
          hh = tod div 3600000;
          mm = (tod div 60000) mod 60;
          ss = (tod div 1000) mod 60
      in show_int y @ ''-'' @ pad2 m @ ''-'' @ pad2 d @ '' '' @
         pad2 hh @ '':'' @ pad2 mm @ '':'' @ pad2 ss)"

definition nowIso :: "int \<Rightarrow> string" where
  \<comment> \<open>\<open>new Date().toISOString()\<close> of an instant in epoch milliseconds (years 0..9999)\<close>
  "nowIso now =
     (let (y, m, d) = civil_from_days (now div ms_per_day);
          tod = now mod ms_per_day
      in padStart 4 (CHR ''0'') (show_int y) @ ''-'' @ pad2 m @ ''-'' @ pad2 d @ ''T'' @
         pad2 (tod div 3600000) @ '':'' @ pad2 ((tod div 60000) mod 60) @ '':'' @
         pad2 ((tod div 1000) mod 60) @ ''.'' @
         padStart 3 (CHR ''0'') (show_int (tod mod 1000)) @ ''Z'')"

definition newDate :: "(string \<Rightarrow> int option) \<Rightarrow> jsval \<Rightarrow> int option" where
  \<comment> \<open>\<open>new Date(v).getTime()\<close>; how a string is read is left to the engine and is
      the parameter \<open>pd\<close> (\<open>None\<close> is an invalid date)\<close>
  "newDate pd v =
     (case v of
        JStr s \<Rightarrow> pd s
      | JNum n \<Rightarrow> (if \<bar>n\<bar> \<le> 8640000000000000 then Some n else None)
      | JBool b \<Rightarrow> Some (if b then 1 else 0)
      | JUndef \<Rightarrow> None)"

definition parseEndTime :: "(string \<Rightarrow> int option) \<Rightarrow> string \<Rightarrow> int option" where
  "parseEndTime pd endStr = (if endStr = [] then None else pd endStr)"

section \<open>The store\<close>

text \<open>
  One record type per kind of node, with the fields the server reads or writes; a field
  the code only tests with \<open>||\<close> or \<open>!\<close> and otherwise treats as text is a string,
  the empty string standing for an absent one as well. Fields whose JavaScript type
  decides a branch (counters, flags, durations, dates) are kept as \<open>jsval\<close>.
  Keys are single path segments.
\<close>

record promo =
  p_slot_id :: string
  p_revoked :: jsval
  p_expires_at :: jsval
  p_used_count :: jsval
  p_max_uses :: jsval
  p_used_by :: "(string \<times> string) list"
  p_last_used_by :: string
  p_last_used_at :: string

record txn =
  t_platform :: string
  t_slot_id :: string
  t_slot_name :: string
  t_label_mode :: string
  t_headline :: string
  t_start_time :: string
  t_end_time :: string
  t_approved_at :: string
  t_assign_to :: string
  t_user_id :: string
  t_last_email :: string
  t_last_password :: string
  t_hidden :: jsval
  t_otp_delivered :: bool
  t_code_delivered :: bool
  t_invite_link_short :: string
  t_invite_link_long :: string

record slot =
  s_name :: string
  s_platform :: string
  s_duration_hours :: jsval

datatype owns_val = OwnsAbsent | OwnsArray "string list" | OwnsString string

record cred =
  c_belongs_to_slot :: owns_val
  c_belongs_to_platform :: owns_val
  c_locked :: jsval
  c_usage_count :: jsval
  c_max_usage :: jsval
  c_expiry_date :: jsval
  c_email :: string
  c_password :: string
  c_secret :: string
  c_invite_link :: string

datatype root_node = Leaf jsval | Node cred

record actions_conf =
  refresh_enabled :: jsval
  otp_enabled :: jsval
  code_enabled :: jsval
  invite_enabled :: jsval

type_synonym promo_store = "string \<rightharpoonup> promo"

record db =
  promo_codes :: promo_store
  transactions :: "string \<rightharpoonup> txn"
  slots :: "string \<rightharpoonup> slot"
  ui_flags :: "string \<Rightarrow> jsval"
  platform_actions :: "string \<rightharpoonup> actions_conf"
  code_windows :: "string \<rightharpoonup> jsval"
  root :: "(string \<times> root_node) list"

definition empty_promo :: promo where
  \<comment> \<open>the object \<open>{}\<close> read as a promo record\<close>
  "empty_promo =
     \<lparr>p_slot_id = [], p_revoked = JUndef, p_expires_at = JUndef, p_used_count = JUndef,
      p_max_uses = JUndef, p_used_by = [], p_last_used_by = [], p_last_used_at = []\<rparr>"

section \<open>Claiming a promo code\<close>

datatype claim_fail =
  CODE_NOT_FOUND | CODE_REVOKED | CODE_EXPIRED | CODE_ALREADY_USED_UP | RACE_FAILED

definition usedCount_of :: "promo \<Rightarrow> int option" where
  "usedCount_of promo = parseInt10 (nullish_or (p_used_count promo) (JNum 0))"

definition maxUses_of :: "promo \<Rightarrow> int option" where
  "maxUses_of promo = parseInt10 (nullish_or (p_max_uses promo) (JNum 1))"

definition is_expired :: "(string \<Rightarrow> int option) \<Rightarrow> int \<Rightarrow> promo \<Rightarrow> bool" where
  "is_expired pd now promo =
     (truthy (p_expires_at promo) \<and>
      (case newDate pd (p_expires_at promo) of None \<Rightarrow> False | Some exp \<Rightarrow> exp < now))"

definition claim_precheck ::
  "(string \<Rightarrow> int option) \<Rightarrow> int \<Rightarrow> promo option \<Rightarrow> claim_fail + promo" where
  \<comment> \<open>the checks of one attempt between the read and the write, in the order of the
      source; \<open>Inr promo\<close> when the attempt goes on to write\<close>
  "claim_precheck pd now snap =
     (case snap of
        None \<Rightarrow> Inl CODE_NOT_FOUND
      | Some promo \<Rightarrow>
          if truthy (p_revoked promo) then Inl CODE_REVOKED
          else if is_expired pd now promo then Inl CODE_EXPIRED
          else if js_ge (usedCount_of promo) (maxUses_of promo) then Inl CODE_ALREADY_USED_UP
          else Inr promo)"

record patch =
  patch_used_count :: "int option"
  patch_last_used_by :: string
  patch_last_used_at :: string
  patch_used_by :: "(string \<times> string) list"

definition patchPayload :: "int \<Rightarrow> string \<Rightarrow> promo \<Rightarrow> patch" where
  "patchPayload now userId promo =
     \<lparr>patch_used_count = js_add (usedCount_of promo) 1,
      patch_last_used_by = userId,
      patch_last_used_at = nowIso now,
      patch_used_by = p_used_by promo @ [(userId, nowIso now)]\<rparr>"

definition update_promo :: "promo_store \<Rightarrow> string \<Rightarrow> patch \<Rightarrow> promo_store option" where
  \<comment> \<open>\<open>db.ref(`promo_codes/${code}`).update(patch)\<close>: the named fields are overwritten
      in the record that is there at the time of the write (in an empty one when there is
      none); \<open>None\<close> when the write is rejected because the counter is \<open>NaN\<close>, which
      the database library refuses to store\<close>
  "update_promo st code pt =
     (case patch_used_count pt of
        None \<Rightarrow> None
      | Some n \<Rightarrow>
          Some (st(code \<mapsto>
            (case st code of None \<Rightarrow> empty_promo | Some p \<Rightarrow> p)
              \<lparr>p_used_count := JNum n,
               p_last_used_by := patch_last_used_by pt,
               p_last_used_at := patch_last_used_at pt,
               p_used_by := patch_used_by pt\<rparr>)))"

definition after_of :: "promo_store \<Rightarrow> string \<Rightarrow> promo" where
  \<comment> \<open>\<open>afterSnap.val() || {}\<close>\<close>
  "after_of st code = (case st code of None \<Rightarrow> empty_promo | Some p \<Rightarrow> p)"

definition verified :: "promo \<Rightarrow> int option \<Rightarrow> bool" where
  \<comment> \<open>\<open>parseInt(after.used_count ?? 0, 10) === newUsedCount\<close>\<close>
  "verified after newUsedCount = js_eq (usedCount_of after) newUsedCount"

text \<open>
  What the rest of the world does during one attempt: the clock reading, whether the
  store rejects the write, and the writes of other requests that land at each of the
  attempt's three waits (before the read, between the read and the write, between the
  write and the read-back).
\<close>

record attempt_env =
  a_now :: int
  a_write_fails :: bool
  a_before_read :: "promo_store \<Rightarrow> promo_store"
  a_before_write :: "promo_store \<Rightarrow> promo_store"
  a_before_verify :: "promo_store \<Rightarrow> promo_store"

text \<open>
  The loop keeps a log of what it did, in order: \<open>Fetched k\<close> for the read that opens
  attempt \<open>k\<close>, \<open>Wrote k\<close> for a write the store accepted, \<open>Sleep ms\<close> for a
  back-off of that many milliseconds.
\<close>

datatype claim_event = Fetched nat | Wrote nat | Sleep nat

type_synonym claim_result = "claim_fail + promo"

function claim_loop ::
  "(string \<Rightarrow> int option) \<Rightarrow> (nat \<Rightarrow> attempt_env) \<Rightarrow> string \<Rightarrow> string \<Rightarrow> nat \<Rightarrow>
   nat \<Rightarrow> promo_store \<Rightarrow> claim_event list \<Rightarrow> claim_result \<times> promo_store \<times> claim_event list"
where
  "claim_loop pd env code userId maxRetries attempt st log =
     (if attempt < maxRetries then
        (let e = env attempt;
             st1 = a_before_read e st;
             log1 = log @ [Fetched attempt]
         in case claim_precheck pd (a_now e) (st1 code) of
              Inl f \<Rightarrow> (Inl f, st1, log1)
            | Inr promo \<Rightarrow>
                (let pt = patchPayload (a_now e) userId promo;
                     st2 = a_before_write e st1
                 in case (if a_write_fails e then None else update_promo st2 code pt) of
                      None \<Rightarrow>
                        claim_loop pd env code userId maxRetries (attempt + 1) st2
                          (log1 @ [Sleep 100])
                    | Some st3 \<Rightarrow>
                        (let st4 = a_before_verify e st3;
                             after = after_of st4 code
                         in if verified after (patch_used_count pt)
                            then (Inr after, st4, log1 @ [Wrote attempt])
                            else claim_loop pd env code userId maxRetries (attempt + 1) st4
                                   (log1 @ [Wrote attempt, Sleep 80]))))
      else (Inl RACE_FAILED, st, log))"
  by pat_completeness auto
termination
  by (relation "measure (\<lambda>(pd, env, code, userId, maxRetries, attempt, st, log).
        maxRetries - attempt)") auto

declare claim_loop.simps [simp del]

definition claimPromoCodeAtomic ::
  "(string \<Rightarrow> int option) \<Rightarrow> (nat \<Rightarrow> attempt_env) \<Rightarrow> string \<Rightarrow> string \<Rightarrow> nat \<Rightarrow>
   promo_store \<Rightarrow> claim_result \<times> promo_store \<times> claim_event list" where
  "claimPromoCodeAtomic pd env code userId maxRetries st =
     claim_loop pd env code userId maxRetries 0 st []"

section \<open>Selecting a credential for a slot\<close>

definition normalizeOwns :: "owns_val \<Rightarrow> string list" where
  "normalizeOwns val =
     (case val of
        OwnsAbsent \<Rightarrow> []
      | OwnsArray xs \<Rightarrow> xs
      | OwnsString s \<Rightarrow>
          if s = [] then [] else filter (\<lambda>v. v \<noteq> []) (map trim (split_on (CHR '','') s)))"

definition nth_or_nan :: "int option list \<Rightarrow> nat \<Rightarrow> int option" where
  \<comment> \<open>an element of a destructured array: a missing one is \<open>undefined\<close>, which is
      \<open>NaN\<close> in arithmetic\<close>
  "nth_or_nan xs i = (if i < length xs then xs ! i else None)"

definition expiry_passed :: "int \<Rightarrow> int \<Rightarrow> jsval \<Rightarrow> bool" where
  \<comment> \<open>the test \<open>exp < today\<close> on \<open>node.expiry_date\<close>; a value without \<open>split\<close>
      raises inside the \<open>try\<close> and is ignored\<close>
  "expiry_passed tz today expiry_date =
     (case expiry_date of
        JStr s \<Rightarrow>
          s \<noteq> [] \<and>
          (let parts = map parseInt_str (split_on (CHR ''-'') s);
               y = nth_or_nan parts 0;
               m = nth_or_nan parts 1;
               d = nth_or_nan parts 2
           in js_lt (mkDate tz y (js_add m (- 1)) (js_add d 1)) (Some today))
      | _ \<Rightarrow> False)"

record candidate =
  cand_key :: string
  cand_node :: cred
  appliesSlot :: bool
  appliesPlat :: bool
  appliesAll :: bool

definition consider_entry :: "int \<Rightarrow> int \<Rightarrow> string \<Rightarrow> string \<Rightarrow> string \<times> root_node \<Rightarrow> candidate option" where
  \<comment> \<open>the body of the loop over \<open>Object.entries(root)\<close>: \<open>None\<close> for \<open>continue\<close>,
      \<open>Some\<close> for the candidate that is pushed\<close>
  "consider_entry tz today slotId slotPlatform entry =
     (case entry of (key, node) \<Rightarrow>
        if \<not> startsWith key ''cred'' then None
        else (case node of
                Leaf v \<Rightarrow> None
              | Node n \<Rightarrow>
                  (let ownsSlots = set (map toLowerCase (normalizeOwns (c_belongs_to_slot n)));
                       ownsPlats = set (map toLowerCase (normalizeOwns (c_belongs_to_platform n)));
                       aSlot = (toLowerCase slotId \<in> ownsSlots);
                       aPlat = (slotPlatform \<noteq> [] \<and> slotPlatform \<in> ownsPlats);
                       aAll = (''all'' \<in> ownsSlots \<or> ''all'' \<in> ownsPlats)
                   in if \<not> aSlot \<and> \<not> aPlat \<and> \<not> aAll then None
                      else (let locked = parseInt10 (nullish_or (c_locked n) (JNum 0));
                                usageCount = parseInt10 (nullish_or (c_usage_count n) (JNum 0));
                                maxUsage = parseInt10 (nullish_or (c_max_usage n) (JNum 0))
                            in if locked = Some 1 then None
                               else if maxUsage \<noteq> Some 0 \<and> js_ge usageCount maxUsage then None
                               else if truthy (c_expiry_date n) \<and>
                                       expiry_passed tz today (c_expiry_date n) then None
                               else Some \<lparr>cand_key = key, cand_node = n, appliesSlot = aSlot,
                                           appliesPlat = aPlat, appliesAll = aAll\<rparr>))))"

definition candidates_of ::
  "int \<Rightarrow> int \<Rightarrow> (string \<times> root_node) list \<Rightarrow> string \<Rightarrow> string \<Rightarrow> candidate list" where
  "candidates_of tz today rt slotId slotPlatform =
     List.map_filter (consider_entry tz today slotId slotPlatform) rt"

definition selectCredentialForSlot ::
  "int \<Rightarrow> int \<Rightarrow> (string \<times> root_node) list \<Rightarrow> string \<Rightarrow> slot \<Rightarrow> (string \<times> cred) option" where
  \<comment> \<open>\<open>None\<close> is the result \<open>{ key: null, node: null }\<close>\<close>
  "selectCredentialForSlot tz today rt slotId slotInfo =
     (let slotPlatform = toLowerCase (s_platform slotInfo);
          candidates = candidates_of tz today rt slotId slotPlatform
      in if candidates = [] then None
         else (case find appliesSlot candidates of
                 Some best \<Rightarrow> Some (cand_key best, cand_node best)
               | None \<Rightarrow>
                   (case find appliesPlat candidates of
                      Some best \<Rightarrow> Some (cand_key best, cand_node best)
                    | None \<Rightarrow>
                        (case find appliesAll candidates of
                           Some best \<Rightarrow> Some (cand_key best, cand_node best)
                         | None \<Rightarrow> None))))"

section \<open>The routes\<close>

text \<open>
  Every route that takes a code answers 400 to an empty one and otherwise looks up the
  record under \<open>code.trim().toUpperCase()\<close>. A presented code that consists of white
  space only is not empty, and its normal form is the empty string; the path
  \<open>transactions/\<close> (or \<open>promo_codes/\<close>) then names the parent node, whose children
  the code reads as the fields of a record. The store of the model holds records under
  keys and has no such view of a parent node, so the routes are modelled for presented
  codes with at least one character that is not white space.
\<close>

definition norm_code :: "string \<Rightarrow> string" where
  \<comment> \<open>\<open>code.trim().toUpperCase()\<close>\<close>
  "norm_code code = toUpperCase (trim code)"

definition toString_js :: "jsval \<Rightarrow> string" where
  "toString_js v =
     (case v of
        JStr s \<Rightarrow> s
      | JNum n \<Rightarrow> show_int n
      | JBool b \<Rightarrow> (if b then ''true'' else ''false'')
      | JUndef \<Rightarrow> ''undefined'')"

definition resolveLabelMode :: "(string \<Rightarrow> jsval) \<Rightarrow> string \<Rightarrow> string" where
  "resolveLabelMode uiFlags scope =
     (let modeRaw = or_else (uiFlags (scope @ ''_label_mode'')) (JStr []);
          mode = toLowerCase (trim (toString_js modeRaw))
      in if mode = ''platform'' \<or> mode = ''name'' then mode
         else if truthy (uiFlags (''use_platform_in_'' @ scope)) then ''platform'' else ''name'')"

definition durationHours_of :: "jsval \<Rightarrow> int" where
  "durationHours_of rawDuration =
     (case rawDuration of
        JNum n \<Rightarrow> n
      | JStr s \<Rightarrow>
          if includes_str (toLowerCase s) ''day'' then 24
          else (case parseInt_str s of Some n \<Rightarrow> n | None \<Rightarrow> 6)
      | _ \<Rightarrow> 6)"

datatype response =
    Failure nat string
  | ClaimFailure claim_fail
  | ClaimedUnassigned string txn
  | ClaimedAssigned string txn
  | LoginOk string string txn "bool \<times> bool \<times> bool \<times> bool" string
  | RefreshUnchanged string string
  | Refreshed string string
  | OtpOk string int
  | CodeBusy
  | CodeNotFound
  | CodeOk string

definition update_root ::
  "(string \<times> root_node) list \<Rightarrow> string \<Rightarrow> (cred \<Rightarrow> cred) \<Rightarrow> (string \<times> root_node) list" where
  \<comment> \<open>\<open>db.ref(key).update(...)\<close> on a credential node\<close>
  "update_root rt key f =
     map (\<lambda>(k, node). if k = key then (k, (case node of Node n \<Rightarrow> Node (f n) | Leaf v \<Rightarrow> Leaf v))
                       else (k, node)) rt"

definition txnRecord_of :: "int \<Rightarrow> int \<Rightarrow> (string \<Rightarrow> jsval) \<Rightarrow> string \<Rightarrow> slot \<Rightarrow> string \<Rightarrow> txn" where
  \<comment> \<open>the lease that \<open>/promo/claim\<close> builds after a successful claim\<close>
  "txnRecord_of tz now uiFlags slotId slt user_id =
     (let labelMode = resolveLabelMode uiFlags ''approve_flow'';
          durationHours = durationHours_of (s_duration_hours slt);
          startTime = now;
          endTime = now + durationHours * 60 * 60 * 1000;
          platform = s_platform slt;
          slotName = (if s_name slt \<noteq> [] then s_name slt else slotId);
          headline = (if labelMode = ''platform'' \<and> platform \<noteq> [] then platform @ '' Account''
                      else slotName @ '' Account'')
      in \<lparr>t_platform = platform, t_slot_id = slotId, t_slot_name = slotName,
          t_label_mode = labelMode, t_headline = headline,
          t_start_time = formatDateTime tz startTime, t_end_time = formatDateTime tz endTime,
          t_approved_at = nowIso now, t_assign_to = [], t_user_id = user_id,
          t_last_email = [], t_last_password = [], t_hidden = JBool False,
          t_otp_delivered = False, t_code_delivered = False,
          t_invite_link_short = [], t_invite_link_long = []\<rparr>)"

definition bind_credential :: "db \<Rightarrow> string \<Rightarrow> string \<Rightarrow> cred \<Rightarrow> db" where
  \<comment> \<open>the two writes after a credential was selected: the lease gets the credential's
      key and payload, the credential's usage count goes up unless its cap is reached\<close>
  "bind_credential d codeText credKey crd =
     (let d1 = d\<lparr>transactions :=
                  (case transactions d codeText of
                     None \<Rightarrow> transactions d
                   | Some t \<Rightarrow> (transactions d)(codeText \<mapsto>
                       t\<lparr>t_assign_to := credKey, t_last_email := c_email crd,
                         t_last_password := c_password crd\<rparr>))\<rparr>;
          usageCount = (case parseInt10 (nullish_or (c_usage_count crd) (JNum 0)) of
                          None \<Rightarrow> 0 | Some u \<Rightarrow> u);
          maxUsage = parseInt10 (nullish_or (c_max_usage crd) (JNum 0))
      in if maxUsage = Some 0 \<or> js_lt (Some usageCount) maxUsage
         then d1\<lparr>root := update_root (root d1) credKey
                            (\<lambda>n. n\<lparr>c_usage_count := JNum (usageCount + 1)\<rparr>)\<rparr>
         else d1)"

definition promo_claim ::
  "(string \<Rightarrow> int option) \<Rightarrow> int \<Rightarrow> (nat \<Rightarrow> attempt_env) \<Rightarrow> int \<Rightarrow> db \<Rightarrow> string \<Rightarrow> string \<Rightarrow>
   response \<times> db" where
  \<comment> \<open>\<open>POST /promo/claim\<close>; \<open>now\<close> is the clock after the claim went through\<close>
  "promo_claim pd tz env now d code user_id =
     (if code = [] \<or> user_id = [] then (Failure 400 ''code and user_id are required'', d)
      else
        (let codeText = norm_code code
         in case claimPromoCodeAtomic pd env codeText user_id 4 (promo_codes d) of
              (Inl reason, promos, log) \<Rightarrow> (ClaimFailure reason, d\<lparr>promo_codes := promos\<rparr>)
            | (Inr promo, promos, log) \<Rightarrow>
                (let d1 = d\<lparr>promo_codes := promos\<rparr>;
                     slotId = p_slot_id promo
                 in if slotId = [] then (Failure 500 ''Promo has no slot_id'', d1)
                    else (case slots d1 slotId of
                            None \<Rightarrow> (Failure 500 ''Slot not found for promo'', d1)
                          | Some slt \<Rightarrow>
                              (let txnRecord = txnRecord_of tz now (ui_flags d1) slotId slt user_id;
                                   d2 = d1\<lparr>transactions := (transactions d1)(codeText \<mapsto> txnRecord)\<rparr>
                               in case selectCredentialForSlot tz now (root d2) slotId slt of
                                    None \<Rightarrow> (ClaimedUnassigned codeText txnRecord, d2)
                                  | Some (credKey, crd) \<Rightarrow>
                                      (let d3 = bind_credential d2 codeText credKey crd
                                       in (ClaimedAssigned codeText
                                             (case transactions d3 codeText of
                                                Some t \<Rightarrow> t | None \<Rightarrow> txnRecord), d3)))))))"

definition empty_cred :: cred where
  "empty_cred =
     \<lparr>c_belongs_to_slot = OwnsAbsent, c_belongs_to_platform = OwnsAbsent, c_locked = JUndef,
      c_usage_count = JUndef, c_max_usage = JUndef, c_expiry_date = JUndef, c_email = [],
      c_password = [], c_secret = [], c_invite_link = []\<rparr>"

definition get_cred :: "(string \<times> root_node) list \<Rightarrow> string \<Rightarrow> cred option" where
  \<comment> \<open>\<open>db.ref(credKey).get()\<close>: \<open>None\<close> when nothing is stored under the key; a leaf
      has none of the fields\<close>
  "get_cred rt credKey =
     (case map_of rt credKey of
        None \<Rightarrow> None
      | Some (Node n) \<Rightarrow> Some n
      | Some (Leaf v) \<Rightarrow> Some empty_cred)"

definition lease_expired :: "(string \<Rightarrow> int option) \<Rightarrow> int \<Rightarrow> txn \<Rightarrow> bool" where
  \<comment> \<open>\<open>endTime && endTime.getTime() < Date.now()\<close>\<close>
  "lease_expired pd now trx =
     (case parseEndTime pd (t_end_time trx) of None \<Rightarrow> False | Some e \<Rightarrow> e < now)"





definition account_refresh :: "(string \<Rightarrow> int option) \<Rightarrow> int \<Rightarrow> db \<Rightarrow> string \<Rightarrow> response \<times> db" where
  \<comment> \<open>\<open>POST /account/refresh\<close>\<close>
  "account_refresh pd now d code =
     (if code = [] then (Failure 400 ''code is required'', d)
      else
        (let normCode = norm_code code
         in case transactions d normCode of
              None \<Rightarrow> (Failure 404 ''Invalid code'', d)
            | Some trx \<Rightarrow>
                if lease_expired pd now trx then (Failure 403 ''Your access has expired'', d)
                else if t_assign_to trx = [] then (Failure 400 ''No credential assigned yet'', d)
                else (case get_cred (root d) (t_assign_to trx) of
                        None \<Rightarrow> (Failure 404 ''Credential not found'', d)
                      | Some crd \<Rightarrow>
                          (let newEmail = c_email crd;
                               newPassword = c_password crd;
                               lastEmail = t_last_email trx;
                               lastPassword = t_last_password trx
                           in if newEmail = lastEmail \<and> newPassword = lastPassword
                              then (RefreshUnchanged newEmail newPassword, d)
                              else (Refreshed newEmail newPassword,
                                    d\<lparr>transactions := (transactions d)(normCode \<mapsto>
                                         trx\<lparr>t_last_email := newEmail,
                                             t_last_password := newPassword\<rparr>)\<rparr>)))))"

section \<open>Time-based one-time codes\<close>

definition b32_alphabet :: string where
  "b32_alphabet = ''ABCDEFGHIJKLMNOPQRSTUVWXYZ234567''"

fun indexOf :: "string \<Rightarrow> char \<Rightarrow> nat option" where
  \<comment> \<open>\<open>alphabet.indexOf(ch)\<close>, \<open>None\<close> for \<open>-1\<close>\<close>
  "indexOf [] ch = None"
| "indexOf (x # xs) ch = (if x = ch then Some 0 else map_option Suc (indexOf xs ch))"

definition bits5 :: "nat \<Rightarrow> bool list" where
  \<comment> \<open>\<open>val.toString(2).padStart(5, "0")\<close> for a value below 32, most significant bit
      first\<close>
  "bits5 v = map (\<lambda>i. odd (v div 2 ^ i)) [4, 3, 2, 1, 0]"

fun bytes_of_bits :: "bool list \<Rightarrow> 8 word list" where
  \<comment> \<open>one byte for every complete group of eight bits\<close>
  "bytes_of_bits (b7 # b6 # b5 # b4 # b3 # b2 # b1 # b0 # rest) =
     of_nat (foldl (\<lambda>a b. 2 * a + (if b then 1 else 0)) 0 [b7, b6, b5, b4, b3, b2, b1, b0])
       # bytes_of_bits rest"
| "bytes_of_bits bs = []"

definition base32ToBuffer :: "string \<Rightarrow> 8 word list" where
  "base32ToBuffer secret =
     (let clean = toUpperCase (filter (\<lambda>c. \<not> is_ws c \<and> c \<noteq> CHR ''='') secret);
          bits = concat (map (\<lambda>ch. case indexOf b32_alphabet ch of
                                      None \<Rightarrow> [] | Some v \<Rightarrow> bits5 v) clean)
      in bytes_of_bits bits)"

definition writeBigUInt64BE :: "nat \<Rightarrow> 8 word list" where
  "writeBigUInt64BE t = map (\<lambda>i. of_nat (t div 2 ^ (8 * i))) [7, 6, 5, 4, 3, 2, 1, 0]"

definition byte_at :: "8 word list \<Rightarrow> nat \<Rightarrow> 32 word" where
  \<comment> \<open>\<open>hmac[i]\<close> as an operand of a bitwise operator: a read past the end is
      \<open>undefined\<close>, which the operator takes as 0\<close>
  "byte_at h i = (if i < length h then ucast (h ! i) else 0)"

definition dynamic_offset :: "8 word list \<Rightarrow> nat" where
  \<comment> \<open>\<open>hmac[hmac.length - 1] & 0xf\<close>\<close>
  "dynamic_offset h = (if h = [] then 0 else unat (byte_at h (length h - 1) AND 0xf))"

definition truncate_code :: "8 word list \<Rightarrow> 32 word" where
  "truncate_code h =
     (let offset = dynamic_offset h
      in push_bit 24 (byte_at h offset AND 0x7f) OR
         push_bit 16 (byte_at h (offset + 1) AND 0xff) OR
         push_bit 8 (byte_at h (offset + 2) AND 0xff) OR
         (byte_at h (offset + 3) AND 0xff))"

definition generateTotp ::
  "(8 word list \<Rightarrow> 8 word list \<Rightarrow> 8 word list) \<Rightarrow> string \<Rightarrow> nat \<Rightarrow> nat \<Rightarrow> nat \<Rightarrow> (string \<times> nat) option"
where
  \<comment> \<open>\<open>hmac_sha1 key message\<close> stands for
      \<open>crypto.createHmac("sha1", key).update(message).digest()\<close>; \<open>now\<close> is
      \<open>Date.now()\<close>; \<open>None\<close> is the \<open>RangeError\<close> of \<open>BigInt\<close> when the step
      is 0\<close>
  "generateTotp hmac_sha1 secret now step digits =
     (if step = 0 then None
      else
        (let key = base32ToBuffer secret;
             time = now div (1000 * step);
             buf = writeBigUInt64BE time;
             hmac = hmac_sha1 key buf;
             codeInt = unat (truncate_code hmac) mod 10 ^ digits;
             codeStr = padStart digits (CHR ''0'') (show_nat codeInt);
             nowSec = now div 1000;
             rem = step - nowSec mod step
         in Some (codeStr, rem)))"

section \<open>The routes that use a bound credential\<close>


text \<open>
  The mail service as the route sees it on one poll: \<open>fetch\<close> rejects; or the response
  arrives and reading its body rejects; or the body is the JSON value \<open>null\<close>; or the
  body yields an object whose \<open>status\<close> and \<open>code\<close> are the two values given (a body
  that is not JSON is replaced by \<open>{}\<close>, both fields absent, and a scalar has neither
  field).
\<close>

datatype reply = FetchThrows | TextThrows | BodyNull | Body jsval jsval

datatype poll_result = Got string | Nothing | Threw

record poll_trace =
  polls :: nat
  sleeps :: "nat list"

function poll_loop :: "(nat \<Rightarrow> reply) \<Rightarrow> nat \<Rightarrow> nat list \<Rightarrow> poll_result \<times> poll_trace" where
  \<comment> \<open>the \<open>while (attempts < 3 && !codeVal)\<close> loop; \<open>mail n\<close> is what the service
      does on the \<open>n\<close>-th request; \<open>Threw\<close> is an exception that leaves the loop
      and the rest of the route's body\<close>
  "poll_loop mail attempts slept =
     (if attempts < 3 then
        (let attempts = attempts + 1
         in case mail attempts of
              FetchThrows \<Rightarrow> (Nothing, \<lparr>polls = attempts, sleeps = slept\<rparr>)
            | TextThrows \<Rightarrow> (Threw, \<lparr>polls = attempts, sleeps = slept\<rparr>)
            | BodyNull \<Rightarrow> (Threw, \<lparr>polls = attempts, sleeps = slept\<rparr>)
            | Body st cd \<Rightarrow>
                (let status = toLowerCase (toString_js (or_else st (JStr [])))
                 in if status = ''success'' then
                      (let c = trim (toString_js (or_else cd (JStr [])))
                       in if c \<noteq> [] then (Got c, \<lparr>polls = attempts, sleeps = slept\<rparr>)
                          else (Nothing, \<lparr>polls = attempts, sleeps = slept\<rparr>))
                    else if status = ''not_found'' then
                      (if attempts < 3 then poll_loop mail attempts (slept @ [1000 * attempts])
                       else (Nothing, \<lparr>polls = attempts, sleeps = slept\<rparr>))
                    else (Nothing, \<lparr>polls = attempts, sleeps = slept\<rparr>)))
      else (Nothing, \<lparr>polls = attempts, sleeps = slept\<rparr>))"
  by pat_completeness auto
termination
  by (relation "measure (\<lambda>(mail, attempts, slept). 3 - attempts)") auto

declare poll_loop.simps [simp del]

definition window_until_of :: "db \<Rightarrow> string \<Rightarrow> int option" where
  \<comment> \<open>\<open>parseInt(node.window_until || 0, 10)\<close> of \<open>runtime/code_windows/<platform>\<close>\<close>
  "window_until_of d platformKey =
     parseInt10 (or_else (case code_windows d platformKey of None \<Rightarrow> JUndef | Some v \<Rightarrow> v)
                         (JNum 0))"

definition set_window :: "db \<Rightarrow> string \<Rightarrow> int \<Rightarrow> db" where
  "set_window d platformKey v = d\<lparr>code_windows := (code_windows d)(platformKey \<mapsto> JNum v)\<rparr>"

definition fetch_code ::
  "(nat \<Rightarrow> reply) \<Rightarrow> int \<Rightarrow> db \<Rightarrow> string \<Rightarrow> txn \<Rightarrow> string \<Rightarrow> (response \<times> db) \<times> poll_trace" where
  \<comment> \<open>the part of \<open>/account/get-code\<close> from the read of the window to the end\<close>
  "fetch_code mail now d normCode trx platformKey =
     (let nowTs = now div 1000;
          windowUntil = window_until_of d platformKey
      in if js_gt windowUntil (Some nowTs) then ((CodeBusy, d), \<lparr>polls = 0, sleeps = []\<rparr>)
         else
           (let d1 = set_window d platformKey (nowTs + 90)
            in case poll_loop mail 0 [] of
                 (Threw, tr) \<Rightarrow> ((Failure 500 ''Internal error'', d1), tr)
               | (Nothing, tr) \<Rightarrow> ((CodeNotFound, set_window d1 platformKey 0), tr)
               | (Got codeVal, tr) \<Rightarrow>
                   (let d2 = set_window d1 platformKey 0
                    in ((CodeOk codeVal,
                         d2\<lparr>transactions := (transactions d2)(normCode \<mapsto>
                              trx\<lparr>t_code_delivered := True\<rparr>)\<rparr>), tr))))"

definition account_get_code ::
  "(nat \<Rightarrow> reply) \<Rightarrow> (string \<Rightarrow> int option) \<Rightarrow> int \<Rightarrow> db \<Rightarrow> string \<Rightarrow>
   (response \<times> db) \<times> poll_trace" where
  \<comment> \<open>\<open>POST /account/get-code\<close>; a credential whose \<open>belongs_to_platform\<close> is an
      array has no \<open>toLowerCase\<close>, which ends the request with the status 500\<close>
  "account_get_code mail pd now d code =
     (let quiet = (\<lambda>r. ((r, d), \<lparr>polls = 0, sleeps = []\<rparr>))
      in if code = [] then quiet (Failure 400 ''code is required'')
         else
           (let normCode = norm_code code
            in case transactions d normCode of
                 None \<Rightarrow> quiet (Failure 404 ''Invalid code'')
               | Some trx \<Rightarrow>
                   if lease_expired pd now trx then quiet (Failure 403 ''Your access has expired'')
                   else if t_assign_to trx = [] then quiet (Failure 400 ''No credential assigned'')
                   else (case get_cred (root d) (t_assign_to trx) of
                           None \<Rightarrow> quiet (Failure 404 ''Credential not found'')
                         | Some crd \<Rightarrow>
                             if trim (c_email crd) = []
                             then quiet (Failure 400 ''No email configured for this credential'')
                             else
                               (let platform = trim (t_platform trx)
                                in if platform \<noteq> []
                                   then fetch_code mail now d normCode trx (toLowerCase platform)
                                   else (case c_belongs_to_platform crd of
                                           OwnsAbsent \<Rightarrow> quiet (Failure 400 ''No platform configured'')
                                         | OwnsArray xs \<Rightarrow> quiet (Failure 500 ''Internal error'')
                                         | OwnsString p \<Rightarrow>
                                             if p = [] then quiet (Failure 400 ''No platform configured'')
                                             else fetch_code mail now d normCode trx (toLowerCase p))))))"

section \<open>Concurrent claims\<close>

text \<open>
  Several requests run \<open>claimPromoCodeAtomic\<close> at once. Each \<open>await\<close> on the store is
  one atomic step, and the steps of different requests interleave in any order. A
  claimant is the loop cut at its three store operations: about to read (with the number
  of the attempt), about to write the patch it built from what it read, about to read
  back and compare with the count it wrote, or finished with its result.
\<close>

datatype pc = AtRead nat | AtWrite nat patch | AtVerify nat "int option" | Finished claim_result

record claimant =
  cl_code :: string
  cl_user :: string
  cl_pc :: pc

definition claimant_step ::
  "(string \<Rightarrow> int option) \<Rightarrow> nat \<Rightarrow> int \<Rightarrow> bool \<Rightarrow> promo_store \<Rightarrow> claimant \<Rightarrow> promo_store \<times> claimant"
where
  \<comment> \<open>one store operation of one claimant, at clock \<open>now\<close>; \<open>rejects\<close> says whether the
      store rejects a write made in this step\<close>
  "claimant_step pd maxRetries now rejects st cl =
     (case cl_pc cl of
        AtRead attempt \<Rightarrow>
          if attempt < maxRetries then
            (case claim_precheck pd now (st (cl_code cl)) of
               Inl f \<Rightarrow> (st, cl\<lparr>cl_pc := Finished (Inl f)\<rparr>)
             | Inr promo \<Rightarrow> (st, cl\<lparr>cl_pc := AtWrite attempt (patchPayload now (cl_user cl) promo)\<rparr>))
          else (st, cl\<lparr>cl_pc := Finished (Inl RACE_FAILED)\<rparr>)
      | AtWrite attempt pt \<Rightarrow>
          (case (if rejects then None else update_promo st (cl_code cl) pt) of
             None \<Rightarrow> (st, cl\<lparr>cl_pc := AtRead (attempt + 1)\<rparr>)
           | Some st' \<Rightarrow> (st', cl\<lparr>cl_pc := AtVerify attempt (patch_used_count pt)\<rparr>))
      | AtVerify attempt newUsedCount \<Rightarrow>
          (let after = after_of st (cl_code cl)
           in if verified after newUsedCount then (st, cl\<lparr>cl_pc := Finished (Inr after)\<rparr>)
              else (st, cl\<lparr>cl_pc := AtRead (attempt + 1)\<rparr>))
      | Finished r \<Rightarrow> (st, cl))"

record tick =
  tk_who :: nat
  tk_now :: int
  tk_write_fails :: bool

fun run_schedule ::
  "(string \<Rightarrow> int option) \<Rightarrow> nat \<Rightarrow> tick list \<Rightarrow> promo_store \<times> claimant list \<Rightarrow>
   promo_store \<times> claimant list" where
  \<comment> \<open>a schedule names, step by step, the claimant that moves next\<close>
  "run_schedule pd maxRetries [] s = s"
| "run_schedule pd maxRetries (t # ts) (st, cls) =
     (if tk_who t < length cls then
        (case claimant_step pd maxRetries (tk_now t) (tk_write_fails t) st (cls ! tk_who t) of
           (st', cl') \<Rightarrow> run_schedule pd maxRetries ts (st', cls[tk_who t := cl']))
      else run_schedule pd maxRetries ts (st, cls))"

definition within_cap :: "promo \<Rightarrow> int \<Rightarrow> bool" where
  \<comment> \<open>the record's maximum is the number \<open>m\<close> and its used count is a number that
      does not exceed it\<close>
  "within_cap p m =
     (maxUses_of p = Some m \<and> (case usedCount_of p of None \<Rightarrow> False | Some u \<Rightarrow> u \<le> m))"

definition pc_ok :: "int \<Rightarrow> pc \<Rightarrow> bool" where
  \<comment> \<open>a count a claimant is about to write, and the count in a record it reports as
      claimed, do not exceed \<open>m\<close>\<close>
  "pc_ok m c =
     (case c of
        AtWrite attempt pt \<Rightarrow> (case patch_used_count pt of None \<Rightarrow> True | Some n \<Rightarrow> n \<le> m)
      | Finished (Inr after) \<Rightarrow> within_cap after m
      | _ \<Rightarrow> True)"

definition claim_inv :: "string \<Rightarrow> int \<Rightarrow> promo_store \<times> claimant list \<Rightarrow> bool" where
  "claim_inv code m s =
     ((case fst s code of None \<Rightarrow> False | Some p \<Rightarrow> within_cap p m) \<and>
      list_all (\<lambda>cl. cl_code cl = code \<longrightarrow> pc_ok m (cl_pc cl)) (snd s))"

definition is_Sleep :: "claim_event \<Rightarrow> bool" where
  "is_Sleep ev = (case ev of Sleep n \<Rightarrow> True | _ \<Rightarrow> False)"

definition is_Fetched :: "claim_event \<Rightarrow> bool" where
  "is_Fetched ev = (case ev of Fetched k \<Rightarrow> True | _ \<Rightarrow> False)"

definition log_ok :: "nat \<Rightarrow> nat \<Rightarrow> claim_result \<Rightarrow> claim_event list \<Rightarrow> bool" where
  \<comment> \<open>what the part of the log written from attempt \<open>attempt\<close> on looks like: at most
      one fetch per remaining attempt, at most one back-off per fetch, back-offs of 100 or
      80 milliseconds only, and \<open>RACE_FAILED\<close> exactly when every remaining attempt ended
      in a back-off\<close>
  "log_ok maxRetries attempt r ext =
     (length (filter is_Fetched ext) \<le> maxRetries - attempt \<and>
      length (filter is_Sleep ext) \<le> length (filter is_Fetched ext) \<and>
      (r = Inl RACE_FAILED \<longleftrightarrow> length (filter is_Sleep ext) = maxRetries - attempt) \<and>
      list_all (\<lambda>ev. case ev of Sleep ms \<Rightarrow> ms = 100 \<or> ms = 80 | _ \<Rightarrow> True) ext)"

text \<open>
  The tests of the selection loop on one credential node, named for the statements
  about \<open>selectCredentialForSlot\<close>.
\<close>

definition owns_slot :: "string \<Rightarrow> cred \<Rightarrow> bool" where
  "owns_slot slotId n =
     (toLowerCase slotId \<in> set (map toLowerCase (normalizeOwns (c_belongs_to_slot n))))"

definition owns_platform :: "string \<Rightarrow> cred \<Rightarrow> bool" where
  "owns_platform slotPlatform n =
     (slotPlatform \<noteq> [] \<and>
      slotPlatform \<in> set (map toLowerCase (normalizeOwns (c_belongs_to_platform n))))"

definition owns_all :: "cred \<Rightarrow> bool" where
  "owns_all n =
     (''all'' \<in> set (map toLowerCase (normalizeOwns (c_belongs_to_slot n))) \<or>
      ''all'' \<in> set (map toLowerCase (normalizeOwns (c_belongs_to_platform n))))"

definition is_locked :: "cred \<Rightarrow> bool" where
  "is_locked n = (parseInt10 (nullish_or (c_locked n) (JNum 0)) = Some 1)"

definition usage_capped :: "cred \<Rightarrow> bool" where
  "usage_capped n =
     (parseInt10 (nullish_or (c_max_usage n) (JNum 0)) \<noteq> Some 0 \<and>
      js_ge (parseInt10 (nullish_or (c_usage_count n) (JNum 0)))
            (parseInt10 (nullish_or (c_max_usage n) (JNum 0))))"

definition past_expiry :: "int \<Rightarrow> int \<Rightarrow> cred \<Rightarrow> bool" where
  "past_expiry tz today n =
     (truthy (c_expiry_date n) \<and> expiry_passed tz today (c_expiry_date n))"

text \<open>
  The dynamic truncation in the words of the specification, to compare with the bitwise
  code of \<open>generateTotp\<close>: the low four bits of the last byte are the offset, the four
  bytes from there are read as a big-endian number with the top bit of the first byte
  masked off. \<open>be_value\<close> is the number that a list of bytes spells in big-endian order.
\<close>

definition spec_truncate :: "8 word list \<Rightarrow> nat" where
  "spec_truncate h =
     (let offset = unat (last h) mod 16
      in (unat (h ! offset) mod 128) * 2 ^ 24 + unat (h ! (offset + 1)) * 2 ^ 16 +
         unat (h ! (offset + 2)) * 2 ^ 8 + unat (h ! (offset + 3)))"

definition be_value :: "8 word list \<Rightarrow> nat" where
  "be_value bs = foldl (\<lambda>a b. 256 * a + unat b) 0 bs"

text \<open>
  The decoding of a base-32 secret in the words of the specification (the alphabet of
  RFC 4648, padding and white space stripped): every letter stands for its place in the
  alphabet, counted from 0, in either case, the digits 2 to 7 stand for 26 to 31, and
  nothing else stands for anything. The one addition is what the upper-casing of the
  code entails: a sharp s becomes \<open>SS\<close> and so stands for two symbols of value 18.
  \<open>b32_value\<close> is the number that a list of symbols spells in base 32.
\<close>

definition b32_values :: "char \<Rightarrow> nat list" where
  "b32_values c =
     (let n = (of_char c :: nat)
      in if 65 \<le> n \<and> n \<le> 90 then [n - 65]
         else if 97 \<le> n \<and> n \<le> 122 then [n - 97]
         else if 50 \<le> n \<and> n \<le> 55 then [n - 24]
         else if n = 223 then [18, 18]
         else [])"

definition b32_digits :: "string \<Rightarrow> nat list" where
  "b32_digits secret = concat (map b32_values secret)"

definition b32_value :: "nat list \<Rightarrow> nat" where
  "b32_value ds = foldl (\<lambda>a d. 32 * a + d) 0 ds"

definition bits_val :: "bool list \<Rightarrow> nat" where
  \<comment> \<open>the number that a list of bits spells, most significant bit first\<close>
  "bits_val bs = foldl (\<lambda>a b. 2 * a + (if b then 1 else 0)) 0 bs"

section \<open>Example data\<close>

text \<open>
  A small store used to run the model on concrete inputs: the slot \<open>premium\<close> with a
  lease of six hours, one credential that serves it, and the code \<open>OORABC123\<close> with a
  single use. The instant \<open>ex_now\<close> is 2024-03-05 10:00:00 UTC.
\<close>

definition ex_now :: int where
  "ex_now = 1709632800000"

definition ex_pd :: "string \<Rightarrow> int option" where
  "ex_pd s =
     (if s = ''2024-03-05 16:00:00'' then Some 1709654400000
      else if s = ''2024-01-01T00:00:00.000Z'' then Some 1704067200000
      else None)"

definition ex_promo :: promo where
  "ex_promo =
     \<lparr>p_slot_id = ''premium'', p_revoked = JBool False, p_expires_at = JUndef,
      p_used_count = JNum 0, p_max_uses = JNum 1, p_used_by = [], p_last_used_by = [],
      p_last_used_at = []\<rparr>"

definition ex_slot :: slot where
  "ex_slot = \<lparr>s_name = ''Premium'', s_platform = ''Netflix'', s_duration_hours = JNum 6\<rparr>"

definition ex_cred :: cred where
  "ex_cred =
     \<lparr>c_belongs_to_slot = OwnsString ''premium'', c_belongs_to_platform = OwnsAbsent,
      c_locked = JNum 0, c_usage_count = JNum 0, c_max_usage = JNum 0, c_expiry_date = JUndef,
      c_email = ''a@example.org'', c_password = ''pw1'', c_secret = ''GEZDGNBVGY3TQOJQ'',
      c_invite_link = []\<rparr>"

definition ex_txn :: txn where
  "ex_txn =
     \<lparr>t_platform = ''Netflix'', t_slot_id = ''premium'', t_slot_name = ''Premium'',
      t_label_mode = ''name'', t_headline = ''Premium Account'',
      t_start_time = ''2024-03-05 10:00:00'', t_end_time = ''2024-03-05 16:00:00'',
      t_approved_at = ''2024-03-05T10:00:00.000Z'', t_assign_to = ''cred1'',
      t_user_id = ''user42'', t_last_email = ''old@example.org'', t_last_password = ''pw0'',
      t_hidden = JBool False, t_otp_delivered = False, t_code_delivered = False,
      t_invite_link_short = [], t_invite_link_long = []\<rparr>"

definition ex_db :: db where
  "ex_db =
     \<lparr>promo_codes = [''OORABC123'' \<mapsto> ex_promo],
      transactions = Map.empty,
      slots = [''premium'' \<mapsto> ex_slot],
      ui_flags = (\<lambda>k. JUndef),
      platform_actions = Map.empty,
      code_windows = Map.empty,
      root = [(''cred1'', Node ex_cred)]\<rparr>"

definition ex_db_leased :: db where
  \<comment> \<open>the same store with a lease under the code\<close>
  "ex_db_leased = ex_db\<lparr>transactions := [''OORABC123'' \<mapsto> ex_txn]\<rparr>"

definition quiet_env :: "int \<Rightarrow> nat \<Rightarrow> attempt_env" where
  \<comment> \<open>no other request writes and the store accepts every write\<close>
  "quiet_env now attempt =
     \<lparr>a_now = now, a_write_fails = False, a_before_read = (\<lambda>st. st),
      a_before_write = (\<lambda>st. st), a_before_verify = (\<lambda>st. st)\<rparr>"


definition ex_db_second :: db where
  \<comment> \<open>the code allows two uses, one is spent, and the first claimant's lease is stored\<close>
  "ex_db_second =
     ex_db\<lparr>promo_codes := [''OORABC123'' \<mapsto> ex_promo\<lparr>p_used_count := JNum 1, p_max_uses := JNum 2\<rparr>],
           transactions := [''OORABC123'' \<mapsto> ex_txn]\<rparr>"


definition failing_env :: "nat \<Rightarrow> attempt_env" where
  \<comment> \<open>the store rejects every write\<close>
  "failing_env attempt = (quiet_env ex_now attempt)\<lparr>a_write_fails := True\<rparr>"

definition racing_env :: "nat \<Rightarrow> attempt_env" where
  \<comment> \<open>another request overwrites the counter of \<open>OORABC123\<close> after each write\<close>
  "racing_env attempt =
     (quiet_env ex_now attempt)
       \<lparr>a_before_verify :=
          (\<lambda>st. st(''OORABC123'' \<mapsto> (after_of st ''OORABC123'')\<lparr>p_used_count := JNum 7\<rparr>))\<rparr>"

definition ex_racers :: "claimant list" where
  \<comment> \<open>two requests that claim \<open>OORABC123\<close> at the same time\<close>
  "ex_racers =
     [\<lparr>cl_code = ''OORABC123'', cl_user = ''user42'', cl_pc = AtRead 0\<rparr>,
      \<lparr>cl_code = ''OORABC123'', cl_user = ''user43'', cl_pc = AtRead 0\<rparr>]"

definition ex_schedule :: "tick list" where
  \<comment> \<open>both read, then both write, then both read back\<close>
  "ex_schedule =
     map (\<lambda>i. \<lparr>tk_who = i, tk_now = ex_now, tk_write_fails = False\<rparr>) [0, 1, 0, 1, 0, 1]"

definition ex_pool :: "(string \<times> root_node) list" where
  \<comment> \<open>a wildcard credential, one that serves the platform, one that serves the slot but
      is locked, one that serves the slot and expired the day before \<open>ex_now\<close>, one that
      serves the slot and expires on the day of \<open>ex_now\<close>, and a node that is no
      credential\<close>
  "ex_pool =
     [(''cred1'', Node (ex_cred\<lparr>c_belongs_to_slot := OwnsString ''all''\<rparr>)),
      (''cred2'', Node (ex_cred\<lparr>c_belongs_to_slot := OwnsAbsent,
                                 c_belongs_to_platform := OwnsString ''Prime, Netflix''\<rparr>)),
      (''cred3'', Node (ex_cred\<lparr>c_locked := JNum 1\<rparr>)),
      (''cred4'', Node (ex_cred\<lparr>c_expiry_date := JStr ''2024-03-04''\<rparr>)),
      (''cred5'', Node (ex_cred\<lparr>c_expiry_date := JStr ''2024-03-05''\<rparr>)),
      (''settings'', Leaf (JBool True))]"

definition ex_digest :: "8 word list" where
  \<comment> \<open>a twenty-byte digest (the worked example of RFC 4226, section 5.4)\<close>
  "ex_digest =
     [0x1f, 0x86, 0x98, 0x69, 0x0e, 0x02, 0xca, 0x16, 0x61, 0x85,
      0x50, 0xef, 0x7f, 0x19, 0xda, 0x8e, 0x94, 0x5b, 0x55, 0x5a]"

definition ex_hmac :: "8 word list \<Rightarrow> 8 word list \<Rightarrow> 8 word list" where
  \<comment> \<open>a stand-in for the keyed hash: it answers with \<open>ex_digest\<close> for the key
      \<open>1234567890\<close> (in ASCII) and the counter 1, and with twenty zero bytes for
      everything else\<close>
  "ex_hmac key msg =
     (if key = [49, 50, 51, 52, 53, 54, 55, 56, 57, 48] \<and> msg = [0, 0, 0, 0, 0, 0, 0, 1]
      then ex_digest else replicate 20 0)"

section \<open>Refreshing a lease\<close>

lemma lease_expired_snapshot:
  "lease_expired pd now (trx\<lparr>t_last_email := e, t_last_password := p\<rparr>) = lease_expired pd now trx"
  by (simp add: lease_expired_def)

text \<open>
  C9. When \<open>/account/refresh\<close> finds the bound credential's email and password equal
  to the lease's \<open>last_email\<close> and \<open>last_password\<close>, it answers "unchanged" and
  the store is the one it started from; otherwise it overwrites the two fields of the
  lease and answers with the new payload. A second refresh (at any later time at which
  the lease has not expired) with the credential untouched answers "unchanged" and
  leaves the store as the first call left it.
\<close>

theorem refresh_unchanged_writes_nothing:
  assumes "code \<noteq> []"
    and "transactions d (norm_code code) = Some trx"
    and "\<not> lease_expired pd now trx"
    and "t_assign_to trx \<noteq> []"
    and "get_cred (root d) (t_assign_to trx) = Some crd"
  shows "(if c_email crd = t_last_email trx \<and> c_password crd = t_last_password trx
          then account_refresh pd now d code = (RefreshUnchanged (c_email crd) (c_password crd), d)
          else account_refresh pd now d code =
                 (Refreshed (c_email crd) (c_password crd),
                  d\<lparr>transactions := (transactions d)(norm_code code \<mapsto>
                       trx\<lparr>t_last_email := c_email crd, t_last_password := c_password crd\<rparr>)\<rparr>)) \<and>
         (\<not> lease_expired pd now2 trx \<longrightarrow>
            account_refresh pd now2 (snd (account_refresh pd now d code)) code =
              (RefreshUnchanged (c_email crd) (c_password crd),
               snd (account_refresh pd now d code)))"
proof -
  let ?d' = "d\<lparr>transactions := (transactions d)(norm_code code \<mapsto>
                trx\<lparr>t_last_email := c_email crd, t_last_password := c_password crd\<rparr>)\<rparr>"
  have first: "account_refresh pd now d code =
      (if c_email crd = t_last_email trx \<and> c_password crd = t_last_password trx
       then (RefreshUnchanged (c_email crd) (c_password crd), d)
       else (Refreshed (c_email crd) (c_password crd), ?d'))"
    using assms by (simp add: account_refresh_def Let_def)
  have again_same: "\<not> lease_expired pd now2 trx \<Longrightarrow>
      c_email crd = t_last_email trx \<and> c_password crd = t_last_password trx \<Longrightarrow>
      account_refresh pd now2 d code = (RefreshUnchanged (c_email crd) (c_password crd), d)"
    using assms by (simp add: account_refresh_def Let_def)
  have again_new: "\<not> lease_expired pd now2 trx \<Longrightarrow>
      account_refresh pd now2 ?d' code = (RefreshUnchanged (c_email crd) (c_password crd), ?d')"
    using assms by (simp add: account_refresh_def Let_def lease_expired_snapshot)
  show ?thesis
    using first again_same again_new by (simp split: if_splits)
qed

theorem refresh_unchanged_writes_nothing_witness:
  "''OORABC123'' \<noteq> [] \<and>
   transactions ex_db_leased (norm_code ''OORABC123'') = Some ex_txn \<and>
   \<not> lease_expired ex_pd ex_now ex_txn \<and>
   t_assign_to ex_txn \<noteq> [] \<and>
   get_cred (root ex_db_leased) (t_assign_to ex_txn) = Some ex_cred \<and>
   account_refresh ex_pd ex_now ex_db_leased ''OORABC123'' =
     (Refreshed ''a@example.org'' ''pw1'',
      ex_db_leased\<lparr>transactions := (transactions ex_db_leased)(norm_code ''OORABC123'' \<mapsto>
        ex_txn\<lparr>t_last_email := ''a@example.org'', t_last_password := ''pw1''\<rparr>)\<rparr>) \<and>
   account_refresh ex_pd (ex_now + 1000)
       (snd (account_refresh ex_pd ex_now ex_db_leased ''OORABC123'')) ''OORABC123'' =
     (RefreshUnchanged ''a@example.org'' ''pw1'',
      snd (account_refresh ex_pd ex_now ex_db_leased ''OORABC123''))"
proof -
  have nc: "norm_code ''OORABC123'' = ''OORABC123''"
    by code_simp
  have h1: "''OORABC123'' \<noteq> []" by simp
  have h2: "transactions ex_db_leased (norm_code ''OORABC123'') = Some ex_txn"
    by (simp add: nc ex_db_leased_def)
  have h3: "\<not> lease_expired ex_pd ex_now ex_txn"
    by (simp add: lease_expired_def parseEndTime_def ex_txn_def ex_pd_def ex_now_def)
  have h3': "\<not> lease_expired ex_pd (ex_now + 1000) ex_txn"
    by (simp add: lease_expired_def parseEndTime_def ex_txn_def ex_pd_def ex_now_def)
  have h4: "t_assign_to ex_txn \<noteq> []" by (simp add: ex_txn_def)
  have h5: "get_cred (root ex_db_leased) (t_assign_to ex_txn) = Some ex_cred"
    by (simp add: get_cred_def ex_db_leased_def ex_db_def ex_txn_def)
  have diff: "\<not> (c_email ex_cred = t_last_email ex_txn \<and> c_password ex_cred = t_last_password ex_txn)"
    by (simp add: ex_cred_def ex_txn_def)
  have vals: "c_email ex_cred = ''a@example.org''" "c_password ex_cred = ''pw1''"
    by (simp_all add: ex_cred_def)
  note th = refresh_unchanged_writes_nothing [OF h1 h2 h3 h4 h5, of "ex_now + 1000"]
  from th have A: "if c_email ex_cred = t_last_email ex_txn \<and> c_password ex_cred = t_last_password ex_txn
          then account_refresh ex_pd ex_now ex_db_leased ''OORABC123'' =
                 (RefreshUnchanged (c_email ex_cred) (c_password ex_cred), ex_db_leased)
          else account_refresh ex_pd ex_now ex_db_leased ''OORABC123'' =
                 (Refreshed (c_email ex_cred) (c_password ex_cred),
                  ex_db_leased\<lparr>transactions := (transactions ex_db_leased)(norm_code ''OORABC123'' \<mapsto>
                       ex_txn\<lparr>t_last_email := c_email ex_cred, t_last_password := c_password ex_cred\<rparr>)\<rparr>)"
    by (rule conjunct1)
  from th h3' have B: "account_refresh ex_pd (ex_now + 1000)
       (snd (account_refresh ex_pd ex_now ex_db_leased ''OORABC123'')) ''OORABC123'' =
     (RefreshUnchanged (c_email ex_cred) (c_password ex_cred),
      snd (account_refresh ex_pd ex_now ex_db_leased ''OORABC123''))"
    by blast
  from A diff have A': "account_refresh ex_pd ex_now ex_db_leased ''OORABC123'' =
                 (Refreshed (c_email ex_cred) (c_password ex_cred),
                  ex_db_leased\<lparr>transactions := (transactions ex_db_leased)(norm_code ''OORABC123'' \<mapsto>
                       ex_txn\<lparr>t_last_email := c_email ex_cred, t_last_password := c_password ex_cred\<rparr>)\<rparr>)"
    by (simp only: if_False)
  show ?thesis
    using h1 h2 h3 h4 h5 A' [unfolded vals] B [unfolded vals] by blast
qed

section \<open>The lease written by a claim\<close>

lemma pad2_values: "pad2 0 = ''00''" "pad2 10 = ''10''" "pad2 16 = ''16''"
  by (simp_all add: pad2_def padStart_def show_int_def show_nat.simps char_of_eq_iff)

lemma shift_within_day:
  fixes x b r k :: int
  assumes "x mod b = r" "0 \<le> r + k" "r + k < b"
  shows "(x + k) div b = x div b" and "(x + k) mod b = r + k"
proof -
  have "x + k = x div b * b + (r + k)"
    using assms(1) div_mult_mod_eq [of x b] by simp
  then have e: "x + k = (r + k) + x div b * b" by simp
  show "(x + k) div b = x div b"
    unfolding e using assms(2,3) by (simp add: div_pos_pos_trivial)
  show "(x + k) mod b = r + k"
    unfolding e using assms(2,3) by (simp add: mod_pos_pos_trivial)
qed

lemma formatDateTime_at_ten:
  assumes "(now + tz) mod ms_per_day = 36000000"
  shows "\<exists>date. formatDateTime tz now = date @ '' 10:00:00'' \<and>
                formatDateTime tz (now + 6 * 60 * 60 * 1000) = date @ '' 16:00:00''"
proof -
  obtain y m d where c: "civil_from_days ((now + tz) div ms_per_day) = (y, m, d)"
    by (cases "civil_from_days ((now + tz) div ms_per_day)") auto
  have sh: "now + 6 * 60 * 60 * 1000 + tz = (now + tz) + 21600000" by simp
  have d2: "(now + 6 * 60 * 60 * 1000 + tz) div ms_per_day = (now + tz) div ms_per_day"
    unfolding sh by (rule shift_within_day(1) [OF assms]) (simp_all add: ms_per_day_def)
  have m2: "(now + 6 * 60 * 60 * 1000 + tz) mod ms_per_day = 57600000"
    unfolding sh using shift_within_day(2) [OF assms, of 21600000] by (simp add: ms_per_day_def)
  have s: "formatDateTime tz now = (show_int y @ ''-'' @ pad2 m @ ''-'' @ pad2 d) @ '' 10:00:00''"
    unfolding formatDateTime_def c assms by (simp add: pad2_values)
  have e: "formatDateTime tz (now + 6 * 60 * 60 * 1000) =
             (show_int y @ ''-'' @ pad2 m @ ''-'' @ pad2 d) @ '' 16:00:00''"
    unfolding formatDateTime_def d2 m2 c by (simp add: pad2_values)
  show ?thesis using s e by blast
qed

lemma promo_claim_success:
  assumes "promo_claim pd tz env now d code u = (r, d')"
    and "r = ClaimedUnassigned c rec \<or> r = ClaimedAssigned c rec"
  shows "\<exists>promo promos log slt.
           claimPromoCodeAtomic pd env (norm_code code) u 4 (promo_codes d) = (Inr promo, promos, log) \<and>
           slots d (p_slot_id promo) = Some slt \<and>
           c = norm_code code \<and>
           transactions d' c = Some rec \<and>
           t_user_id rec = u \<and>
           t_start_time rec = formatDateTime tz now \<and>
           t_end_time rec =
             formatDateTime tz (now + durationHours_of (s_duration_hours slt) * 60 * 60 * 1000) \<and>
           t_approved_at rec = nowIso now \<and>
           t_slot_id rec = p_slot_id promo"
  using assms
  by (auto simp: promo_claim_def Let_def bind_credential_def txnRecord_of_def
      split: if_splits prod.splits sum.splits option.splits)

text \<open>
  C6. The lease duration of a successful claim comes from the slot's \<open>duration_hours\<close>:
  a number is that many hours, a string containing "day" in any letter case is 24 hours,
  any other string is read by \<open>parseInt\<close> (its leading integer), and 6 hours is the
  default when nothing parses or the field has another type. The stored lease starts at
  the claim's clock reading and ends that many hours later; with a six-hour slot claimed
  at 10:00:00 local time the start is "... 10:00:00" and the end "... 16:00:00" of the
  same date.
\<close>

theorem lease_duration_from_slot:
  "durationHours_of (JNum n) = n \<and>
   (includes_str (toLowerCase s) ''day'' \<longrightarrow> durationHours_of (JStr s) = 24) \<and>
   (\<not> includes_str (toLowerCase s) ''day'' \<longrightarrow>
      durationHours_of (JStr s) = (case parseInt_str s of Some k \<Rightarrow> k | None \<Rightarrow> 6)) \<and>
   durationHours_of JUndef = 6 \<and>
   durationHours_of (JBool b) = 6 \<and>
   (promo_claim pd tz env now d code u = (r, d') \<and>
    (r = ClaimedUnassigned c rec \<or> r = ClaimedAssigned c rec) \<longrightarrow>
      (\<exists>slt. slots d (t_slot_id rec) = Some slt \<and>
         transactions d' (norm_code code) = Some rec \<and>
         t_start_time rec = formatDateTime tz now \<and>
         t_end_time rec =
           formatDateTime tz (now + durationHours_of (s_duration_hours slt) * 60 * 60 * 1000) \<and>
         (durationHours_of (s_duration_hours slt) = 6 \<and> (now + tz) mod ms_per_day = 36000000 \<longrightarrow>
            (\<exists>date. t_start_time rec = date @ '' 10:00:00'' \<and>
                    t_end_time rec = date @ '' 16:00:00''))))"
proof -
  have claim_part: "\<exists>slt. slots d (t_slot_id rec) = Some slt \<and>
         transactions d' (norm_code code) = Some rec \<and>
         t_start_time rec = formatDateTime tz now \<and>
         t_end_time rec =
           formatDateTime tz (now + durationHours_of (s_duration_hours slt) * 60 * 60 * 1000) \<and>
         (durationHours_of (s_duration_hours slt) = 6 \<and> (now + tz) mod ms_per_day = 36000000 \<longrightarrow>
            (\<exists>date. t_start_time rec = date @ '' 10:00:00'' \<and>
                    t_end_time rec = date @ '' 16:00:00''))"
    if ok: "promo_claim pd tz env now d code u = (r, d')"
      "r = ClaimedUnassigned c rec \<or> r = ClaimedAssigned c rec"
  proof -
    from promo_claim_success [OF ok] obtain promo promos log slt where
      f: "claimPromoCodeAtomic pd env (norm_code code) u 4 (promo_codes d) = (Inr promo, promos, log) \<and>
           slots d (p_slot_id promo) = Some slt \<and>
           c = norm_code code \<and>
           transactions d' c = Some rec \<and>
           t_user_id rec = u \<and>
           t_start_time rec = formatDateTime tz now \<and>
           t_end_time rec =
             formatDateTime tz (now + durationHours_of (s_duration_hours slt) * 60 * 60 * 1000) \<and>
           t_approved_at rec = nowIso now \<and>
           t_slot_id rec = p_slot_id promo"
      by (elim exE)
    have ex: "\<exists>date. t_start_time rec = date @ '' 10:00:00'' \<and>
                    t_end_time rec = date @ '' 16:00:00''"
      if "durationHours_of (s_duration_hours slt) = 6" "(now + tz) mod ms_per_day = 36000000"
      using formatDateTime_at_ten [OF that(2)] f that(1) by simp
    show ?thesis
      using f ex by auto
  qed
  show ?thesis
    using claim_part by (simp add: durationHours_of_def)
qed

lemma ex_claim_response:
  "fst (promo_claim ex_pd 0 (quiet_env ex_now) ex_now ex_db ''OORABC123'' ''user42'') =
     ClaimedAssigned ''OORABC123''
       (ex_txn\<lparr>t_last_email := ''a@example.org'', t_last_password := ''pw1''\<rparr>)"
  by code_simp

theorem lease_duration_from_slot_witness:
  "includes_str (toLowerCase ''1 Day'') ''day'' \<and>
   durationHours_of (JStr ''1 Day'') = 24 \<and>
   \<not> includes_str (toLowerCase ''12h'') ''day'' \<and>
   durationHours_of (JStr ''12h'') = 12 \<and>
   fst (promo_claim ex_pd 0 (quiet_env ex_now) ex_now ex_db ''OORABC123'' ''user42'') =
     ClaimedAssigned ''OORABC123''
       (ex_txn\<lparr>t_last_email := ''a@example.org'', t_last_password := ''pw1''\<rparr>) \<and>
   durationHours_of (s_duration_hours ex_slot) = 6 \<and>
   (ex_now + 0) mod ms_per_day = 36000000 \<and>
   (\<exists>date. t_start_time (ex_txn\<lparr>t_last_email := ''a@example.org'', t_last_password := ''pw1''\<rparr>) =
              date @ '' 10:00:00'' \<and>
            t_end_time (ex_txn\<lparr>t_last_email := ''a@example.org'', t_last_password := ''pw1''\<rparr>) =
              date @ '' 16:00:00'')"
proof -
  let ?rec = "ex_txn\<lparr>t_last_email := ''a@example.org'', t_last_password := ''pw1''\<rparr>"
  let ?run = "promo_claim ex_pd 0 (quiet_env ex_now) ex_now ex_db ''OORABC123'' ''user42''"
  have day: "includes_str (toLowerCase ''1 Day'') ''day''"
    by (simp add: toLowerCase_def toLowerChar_def char_of_eq_iff)
  have noday: "\<not> includes_str (toLowerCase ''12h'') ''day''"
    by (simp add: toLowerCase_def toLowerChar_def char_of_eq_iff)
  have p12: "parseInt_str ''12h'' = Some 12"
    by (simp add: parseInt_str_def is_ws_def is_digit_def digits_val_def digit_val_def)
  have d24: "durationHours_of (JStr ''1 Day'') = 24"
    using lease_duration_from_slot [of _ "''1 Day''"] day by blast
  have d12: "durationHours_of (JStr ''12h'') = 12"
    using lease_duration_from_slot [of _ "''12h''"] noday p12 by simp
  have run: "?run = (fst ?run, snd ?run)" by simp
  have r: "fst ?run = ClaimedUnassigned ''OORABC123'' ?rec \<or> fst ?run = ClaimedAssigned ''OORABC123'' ?rec"
    using ex_claim_response by simp
  have six: "durationHours_of (s_duration_hours ex_slot) = 6"
    by (simp add: durationHours_of_def ex_slot_def)
  have ten: "(ex_now + 0) mod ms_per_day = 36000000"
    by (simp add: ex_now_def ms_per_day_def)
  have sl: "slots ex_db (t_slot_id ?rec) = Some ex_slot"
    by (simp add: ex_db_def ex_txn_def)
  from lease_duration_from_slot [of _ _ _ ex_pd 0 "quiet_env ex_now" ex_now ex_db "''OORABC123''"
      "''user42''" "fst ?run" "snd ?run" "''OORABC123''" ?rec] run r
  obtain slt where slt: "slots ex_db (t_slot_id ?rec) = Some slt"
    and imp: "durationHours_of (s_duration_hours slt) = 6 \<and> (ex_now + 0) mod ms_per_day = 36000000 \<longrightarrow>
            (\<exists>date. t_start_time ?rec = date @ '' 10:00:00'' \<and>
                    t_end_time ?rec = date @ '' 16:00:00'')"
    by blast
  from slt sl have "slt = ex_slot" by simp
  with imp six ten have "\<exists>date. t_start_time ?rec = date @ '' 10:00:00'' \<and>
                    t_end_time ?rec = date @ '' 16:00:00''"
    by blast
  then show ?thesis
    using day d24 noday d12 ex_claim_response six ten by blast
qed

lemma promo_claim_ignores_old_lease:
  "fst (promo_claim pd tz env now d code u) = ClaimedUnassigned c rec \<or>
   fst (promo_claim pd tz env now d code u) = ClaimedAssigned c rec \<Longrightarrow>
   promo_claim pd tz env now (d\<lparr>transactions := (transactions d)(norm_code code := old)\<rparr>) code u =
     promo_claim pd tz env now d code u"
  by (auto simp: promo_claim_def Let_def bind_credential_def
      split: if_splits prod.splits sum.splits option.splits)

lemma ex_second_claim:
  "fst (promo_claim ex_pd 0 (quiet_env (ex_now + 3600000)) (ex_now + 3600000) ex_db_second
          ''OORABC123'' ''user43'') =
     ClaimedAssigned ''OORABC123''
       (ex_txn\<lparr>t_start_time := ''2024-03-05 11:00:00'', t_end_time := ''2024-03-05 17:00:00'',
               t_approved_at := ''2024-03-05T11:00:00.000Z'', t_user_id := ''user43'',
               t_last_email := ''a@example.org'', t_last_password := ''pw1''\<rparr>)"
  by code_simp

lemma ex_second_lease:
  "transactions (snd (promo_claim ex_pd 0 (quiet_env (ex_now + 3600000)) (ex_now + 3600000) ex_db_second
          ''OORABC123'' ''user43'')) ''OORABC123'' =
     Some (ex_txn\<lparr>t_start_time := ''2024-03-05 11:00:00'', t_end_time := ''2024-03-05 17:00:00'',
               t_approved_at := ''2024-03-05T11:00:00.000Z'', t_user_id := ''user43'',
               t_last_email := ''a@example.org'', t_last_password := ''pw1''\<rparr>)"
  by code_simp

text \<open>
  C5 (as stated: the lease is created once per code and a later successful claim of the
  same code does not overwrite it). The route writes the lease with \<open>set\<close> on every
  successful claim. Here the code allows two uses, the first claimant's lease is stored,
  and the second claim succeeds and leaves a different lease under the code.
\<close>

theorem lease_created_once_counterexample:
  "transactions ex_db_second ''OORABC123'' = Some ex_txn \<and>
   fst (promo_claim ex_pd 0 (quiet_env (ex_now + 3600000)) (ex_now + 3600000) ex_db_second
          ''OORABC123'' ''user43'') =
     ClaimedAssigned ''OORABC123''
       (ex_txn\<lparr>t_start_time := ''2024-03-05 11:00:00'', t_end_time := ''2024-03-05 17:00:00'',
               t_approved_at := ''2024-03-05T11:00:00.000Z'', t_user_id := ''user43'',
               t_last_email := ''a@example.org'', t_last_password := ''pw1''\<rparr>) \<and>
   transactions (snd (promo_claim ex_pd 0 (quiet_env (ex_now + 3600000)) (ex_now + 3600000)
          ex_db_second ''OORABC123'' ''user43'')) ''OORABC123'' =
     Some (ex_txn\<lparr>t_start_time := ''2024-03-05 11:00:00'', t_end_time := ''2024-03-05 17:00:00'',
               t_approved_at := ''2024-03-05T11:00:00.000Z'', t_user_id := ''user43'',
               t_last_email := ''a@example.org'', t_last_password := ''pw1''\<rparr>) \<and>
   ex_txn\<lparr>t_start_time := ''2024-03-05 11:00:00'', t_end_time := ''2024-03-05 17:00:00'',
               t_approved_at := ''2024-03-05T11:00:00.000Z'', t_user_id := ''user43'',
               t_last_email := ''a@example.org'', t_last_password := ''pw1''\<rparr> \<noteq> ex_txn"
proof -
  have "transactions ex_db_second ''OORABC123'' = Some ex_txn"
    by (simp add: ex_db_second_def)
  moreover have "ex_txn\<lparr>t_start_time := ''2024-03-05 11:00:00'', t_end_time := ''2024-03-05 17:00:00'',
               t_approved_at := ''2024-03-05T11:00:00.000Z'', t_user_id := ''user43'',
               t_last_email := ''a@example.org'', t_last_password := ''pw1''\<rparr> \<noteq> ex_txn"
    by (simp add: ex_txn_def)
  ultimately show ?thesis
    using ex_second_claim ex_second_lease by blast
qed

text \<open>
  C5 (amended). Every successful claim stores a freshly built lease under the
  normalised code: the stored record is the one the response reports, it carries the
  claimant's user id, the claim's clock reading as start time and as approval time, and
  neither the response nor the resulting store depends on what was stored under the code
  before. A later successful claim of the same code thus replaces the earlier lease.
\<close>

theorem claim_writes_fresh_lease:
  assumes "promo_claim pd tz env now d code u = (r, d')"
    and "r = ClaimedUnassigned c rec \<or> r = ClaimedAssigned c rec"
  shows "transactions d' (norm_code code) = Some rec \<and>
         t_user_id rec = u \<and>
         t_start_time rec = formatDateTime tz now \<and>
         t_approved_at rec = nowIso now \<and>
         promo_claim pd tz env now
           (d\<lparr>transactions := (transactions d)(norm_code code := old)\<rparr>) code u = (r, d')"
proof -
  from promo_claim_success [OF assms]
  have "transactions d' (norm_code code) = Some rec \<and> t_user_id rec = u \<and>
        t_start_time rec = formatDateTime tz now \<and> t_approved_at rec = nowIso now"
    by blast
  moreover have "promo_claim pd tz env now
       (d\<lparr>transactions := (transactions d)(norm_code code := old)\<rparr>) code u = (r, d')"
    using promo_claim_ignores_old_lease [of pd tz env now d code u c rec old] assms by simp
  ultimately show ?thesis by blast
qed

theorem claim_writes_fresh_lease_witness:
  "fst (promo_claim ex_pd 0 (quiet_env (ex_now + 3600000)) (ex_now + 3600000) ex_db_second
          ''OORABC123'' ''user43'') =
     ClaimedAssigned ''OORABC123''
       (ex_txn\<lparr>t_start_time := ''2024-03-05 11:00:00'', t_end_time := ''2024-03-05 17:00:00'',
               t_approved_at := ''2024-03-05T11:00:00.000Z'', t_user_id := ''user43'',
               t_last_email := ''a@example.org'', t_last_password := ''pw1''\<rparr>) \<and>
   t_user_id (ex_txn\<lparr>t_start_time := ''2024-03-05 11:00:00'', t_end_time := ''2024-03-05 17:00:00'',
               t_approved_at := ''2024-03-05T11:00:00.000Z'', t_user_id := ''user43'',
               t_last_email := ''a@example.org'', t_last_password := ''pw1''\<rparr>) = ''user43'' \<and>
   promo_claim ex_pd 0 (quiet_env (ex_now + 3600000)) (ex_now + 3600000)
     (ex_db_second\<lparr>transactions := (transactions ex_db_second)(norm_code ''OORABC123'' := None)\<rparr>)
     ''OORABC123'' ''user43'' =
   promo_claim ex_pd 0 (quiet_env (ex_now + 3600000)) (ex_now + 3600000) ex_db_second
     ''OORABC123'' ''user43''"
proof -
  let ?run = "promo_claim ex_pd 0 (quiet_env (ex_now + 3600000)) (ex_now + 3600000) ex_db_second
          ''OORABC123'' ''user43''"
  let ?rec = "ex_txn\<lparr>t_start_time := ''2024-03-05 11:00:00'', t_end_time := ''2024-03-05 17:00:00'',
               t_approved_at := ''2024-03-05T11:00:00.000Z'', t_user_id := ''user43'',
               t_last_email := ''a@example.org'', t_last_password := ''pw1''\<rparr>"
  have run: "?run = (fst ?run, snd ?run)" by simp
  have r: "fst ?run = ClaimedUnassigned ''OORABC123'' ?rec \<or> fst ?run = ClaimedAssigned ''OORABC123'' ?rec"
    using ex_second_claim by simp
  from claim_writes_fresh_lease [OF run r, of None]
  have "t_user_id ?rec = ''user43''"
    and "promo_claim ex_pd 0 (quiet_env (ex_now + 3600000)) (ex_now + 3600000)
     (ex_db_second\<lparr>transactions := (transactions ex_db_second)(norm_code ''OORABC123'' := None)\<rparr>)
     ''OORABC123'' ''user43'' = ?run"
    by simp_all
  then show ?thesis
    using ex_second_claim by blast
qed

section \<open>The checks and the retries of a claim\<close>

lemma claim_loop_precheck_fails:
  assumes "attempt < maxRetries"
    and "claim_precheck pd (a_now (env attempt)) (a_before_read (env attempt) st code) = Inl f"
  shows "claim_loop pd env code u maxRetries attempt st log =
           (Inl f, a_before_read (env attempt) st, log @ [Fetched attempt])"
  using assms by (subst claim_loop.simps) (simp add: Let_def)



lemma claim_loop_exhausted:
  "\<not> attempt < maxRetries \<Longrightarrow>
   claim_loop pd env code u maxRetries attempt st log = (Inl RACE_FAILED, st, log)"
  by (subst claim_loop.simps) simp

lemma claim_loop_write_fails:
  assumes "attempt < maxRetries"
    and "claim_precheck pd (a_now (env attempt)) (a_before_read (env attempt) st code) = Inr promo"
    and "a_write_fails (env attempt) \<or>
         update_promo (a_before_write (env attempt) (a_before_read (env attempt) st)) code
           (patchPayload (a_now (env attempt)) u promo) = None"
  shows "claim_loop pd env code u maxRetries attempt st log =
           claim_loop pd env code u maxRetries (attempt + 1)
             (a_before_write (env attempt) (a_before_read (env attempt) st))
             (log @ [Fetched attempt] @ [Sleep 100])"
  using assms by (subst claim_loop.simps) (auto simp: Let_def)

lemma claim_loop_mismatch:
  assumes "attempt < maxRetries"
    and "claim_precheck pd (a_now (env attempt)) (a_before_read (env attempt) st code) = Inr promo"
    and "\<not> a_write_fails (env attempt)"
    and "update_promo (a_before_write (env attempt) (a_before_read (env attempt) st)) code
           (patchPayload (a_now (env attempt)) u promo) = Some st3"
    and "\<not> verified (after_of (a_before_verify (env attempt) st3) code)
             (patch_used_count (patchPayload (a_now (env attempt)) u promo))"
  shows "claim_loop pd env code u maxRetries attempt st log =
           claim_loop pd env code u maxRetries (attempt + 1) (a_before_verify (env attempt) st3)
             (log @ [Fetched attempt] @ [Wrote attempt, Sleep 80])"
  using assms by (subst claim_loop.simps) (auto simp: Let_def)

lemma claim_loop_success:
  assumes "attempt < maxRetries"
    and "claim_precheck pd (a_now (env attempt)) (a_before_read (env attempt) st code) = Inr promo"
    and "\<not> a_write_fails (env attempt)"
    and "update_promo (a_before_write (env attempt) (a_before_read (env attempt) st)) code
           (patchPayload (a_now (env attempt)) u promo) = Some st3"
    and "verified (after_of (a_before_verify (env attempt) st3) code)
             (patch_used_count (patchPayload (a_now (env attempt)) u promo))"
  shows "claim_loop pd env code u maxRetries attempt st log =
           (Inr (after_of (a_before_verify (env attempt) st3) code),
            a_before_verify (env attempt) st3, log @ [Fetched attempt] @ [Wrote attempt])"
  using assms by (subst claim_loop.simps) (auto simp: Let_def)

lemma claim_loop_cases:
  obtains
    (fails) f where "claim_precheck pd (a_now (env attempt)) (a_before_read (env attempt) st code) = Inl f"
  | (write_fails) promo where
      "claim_precheck pd (a_now (env attempt)) (a_before_read (env attempt) st code) = Inr promo"
      "a_write_fails (env attempt) \<or>
         update_promo (a_before_write (env attempt) (a_before_read (env attempt) st)) code
           (patchPayload (a_now (env attempt)) u promo) = None"
  | (mismatch) promo st3 where
      "claim_precheck pd (a_now (env attempt)) (a_before_read (env attempt) st code) = Inr promo"
      "\<not> a_write_fails (env attempt)"
      "update_promo (a_before_write (env attempt) (a_before_read (env attempt) st)) code
           (patchPayload (a_now (env attempt)) u promo) = Some st3"
      "\<not> verified (after_of (a_before_verify (env attempt) st3) code)
             (patch_used_count (patchPayload (a_now (env attempt)) u promo))"
  | (success) promo st3 where
      "claim_precheck pd (a_now (env attempt)) (a_before_read (env attempt) st code) = Inr promo"
      "\<not> a_write_fails (env attempt)"
      "update_promo (a_before_write (env attempt) (a_before_read (env attempt) st)) code
           (patchPayload (a_now (env attempt)) u promo) = Some st3"
      "verified (after_of (a_before_verify (env attempt) st3) code)
             (patch_used_count (patchPayload (a_now (env attempt)) u promo))"
proof (cases "claim_precheck pd (a_now (env attempt)) (a_before_read (env attempt) st code)")
  case (Inl f)
  then show ?thesis by (rule fails)
next
  case (Inr promo)
  show ?thesis
  proof (cases "a_write_fails (env attempt) \<or>
         update_promo (a_before_write (env attempt) (a_before_read (env attempt) st)) code
           (patchPayload (a_now (env attempt)) u promo) = None")
    case True
    with Inr show ?thesis by (rule write_fails)
  next
    case False
    then obtain st3 where w: "\<not> a_write_fails (env attempt)"
      "update_promo (a_before_write (env attempt) (a_before_read (env attempt) st)) code
           (patchPayload (a_now (env attempt)) u promo) = Some st3"
      by auto
    show ?thesis
    proof (cases "verified (after_of (a_before_verify (env attempt) st3) code)
             (patch_used_count (patchPayload (a_now (env attempt)) u promo))")
      case True
      with Inr w show ?thesis by (rule success)
    next
      case False
      with Inr w show ?thesis by (rule mismatch)
    qed
  qed
qed

lemma claim_loop_log:
  "attempt \<le> maxRetries \<Longrightarrow>
   \<exists>ext. snd (snd (claim_loop pd env code u maxRetries attempt st log)) = log @ ext \<and>
         log_ok maxRetries attempt (fst (claim_loop pd env code u maxRetries attempt st log)) ext"
proof (induction "maxRetries - attempt" arbitrary: attempt st log)
  case 0
  then have "\<not> attempt < maxRetries" by simp
  then show ?case
    by (simp add: claim_loop_exhausted log_ok_def)
next
  case (Suc n)
  then have lt: "attempt < maxRetries" by simp
  have n: "n = maxRetries - (attempt + 1)" using Suc(2) by simp
  have le: "attempt + 1 \<le> maxRetries" using lt by simp
  show ?case
  proof (cases rule: claim_loop_cases [where pd = pd and env = env and attempt = attempt and st = st and code = code and u = u])
    case (fails f)
    have "f \<noteq> RACE_FAILED"
      using fails by (auto simp: claim_precheck_def split: option.splits if_splits)
    then show ?thesis
      using lt by (simp add: claim_loop_precheck_fails [where env = env, OF lt fails] log_ok_def is_Fetched_def is_Sleep_def)
  next
    case (write_fails promo)
    from Suc(1) [OF n le, of "a_before_write (env attempt) (a_before_read (env attempt) st)"
        "log @ [Fetched attempt] @ [Sleep 100]"]
    obtain ext where ext: "snd (snd (claim_loop pd env code u maxRetries (attempt + 1)
          (a_before_write (env attempt) (a_before_read (env attempt) st))
          (log @ [Fetched attempt] @ [Sleep 100]))) = (log @ [Fetched attempt] @ [Sleep 100]) @ ext"
      "log_ok maxRetries (attempt + 1) (fst (claim_loop pd env code u maxRetries (attempt + 1)
          (a_before_write (env attempt) (a_before_read (env attempt) st))
          (log @ [Fetched attempt] @ [Sleep 100]))) ext"
      by blast
    show ?thesis
      unfolding claim_loop_write_fails [where env = env, OF lt write_fails]
      apply (rule exI [of _ "[Fetched attempt, Sleep 100] @ ext"])
      using ext lt by (auto simp: log_ok_def is_Fetched_def is_Sleep_def)
  next
    case (mismatch promo st3)
    from Suc(1) [OF n le, of "a_before_verify (env attempt) st3"
        "log @ [Fetched attempt] @ [Wrote attempt, Sleep 80]"]
    obtain ext where ext: "snd (snd (claim_loop pd env code u maxRetries (attempt + 1)
          (a_before_verify (env attempt) st3)
          (log @ [Fetched attempt] @ [Wrote attempt, Sleep 80]))) =
            (log @ [Fetched attempt] @ [Wrote attempt, Sleep 80]) @ ext"
      "log_ok maxRetries (attempt + 1) (fst (claim_loop pd env code u maxRetries (attempt + 1)
          (a_before_verify (env attempt) st3)
          (log @ [Fetched attempt] @ [Wrote attempt, Sleep 80]))) ext"
      by blast
    show ?thesis
      unfolding claim_loop_mismatch [where env = env, OF lt mismatch]
      apply (rule exI [of _ "[Fetched attempt, Wrote attempt, Sleep 80] @ ext"])
      using ext lt by (auto simp: log_ok_def is_Fetched_def is_Sleep_def)
  next
    case (success promo st3)
    show ?thesis
      using lt by (simp add: claim_loop_success [where env = env, OF lt success] log_ok_def is_Fetched_def is_Sleep_def)
  qed
qed

text \<open>
  C3. An attempt whose write the store rejects backs off 100 ms, and an attempt whose
  read-back does not show the count it wrote backs off 80 ms; either way the loop goes on
  with the next attempt, which starts with a new read. When no attempt is left the loop
  returns \<open>RACE_FAILED\<close>. A whole claim with \<open>maxRetries\<close> attempts (4 in the route)
  therefore reads at most \<open>maxRetries\<close> times, backs off at most once per read and only
  for 100 or 80 ms, and returns \<open>RACE_FAILED\<close> exactly when every one of the
  \<open>maxRetries\<close> attempts ended in a back-off.
\<close>

theorem claim_retries_bounded:
  "(attempt < maxRetries \<and>
    claim_precheck pd (a_now (env attempt)) (a_before_read (env attempt) st code) = Inr promo \<and>
    (a_write_fails (env attempt) \<or>
     update_promo (a_before_write (env attempt) (a_before_read (env attempt) st)) code
       (patchPayload (a_now (env attempt)) u promo) = None) \<longrightarrow>
      claim_loop pd env code u maxRetries attempt st log =
        claim_loop pd env code u maxRetries (attempt + 1)
          (a_before_write (env attempt) (a_before_read (env attempt) st))
          (log @ [Fetched attempt, Sleep 100])) \<and>
   (attempt < maxRetries \<and>
    claim_precheck pd (a_now (env attempt)) (a_before_read (env attempt) st code) = Inr promo \<and>
    \<not> a_write_fails (env attempt) \<and>
    update_promo (a_before_write (env attempt) (a_before_read (env attempt) st)) code
       (patchPayload (a_now (env attempt)) u promo) = Some st3 \<and>
    \<not> verified (after_of (a_before_verify (env attempt) st3) code)
         (patch_used_count (patchPayload (a_now (env attempt)) u promo)) \<longrightarrow>
      claim_loop pd env code u maxRetries attempt st log =
        claim_loop pd env code u maxRetries (attempt + 1) (a_before_verify (env attempt) st3)
          (log @ [Fetched attempt, Wrote attempt, Sleep 80])) \<and>
   (\<not> attempt < maxRetries \<longrightarrow>
      claim_loop pd env code u maxRetries attempt st log = (Inl RACE_FAILED, st, log)) \<and>
   length (filter is_Fetched (snd (snd (claimPromoCodeAtomic pd env code u maxRetries st))))
     \<le> maxRetries \<and>
   length (filter is_Sleep (snd (snd (claimPromoCodeAtomic pd env code u maxRetries st))))
     \<le> length (filter is_Fetched (snd (snd (claimPromoCodeAtomic pd env code u maxRetries st)))) \<and>
   (fst (claimPromoCodeAtomic pd env code u maxRetries st) = Inl RACE_FAILED \<longleftrightarrow>
      length (filter is_Sleep (snd (snd (claimPromoCodeAtomic pd env code u maxRetries st))))
        = maxRetries) \<and>
   list_all (\<lambda>ev. case ev of Sleep ms \<Rightarrow> ms = 100 \<or> ms = 80 | _ \<Rightarrow> True)
     (snd (snd (claimPromoCodeAtomic pd env code u maxRetries st)))"
proof -
  have a: "attempt < maxRetries \<Longrightarrow>
    claim_precheck pd (a_now (env attempt)) (a_before_read (env attempt) st code) = Inr promo \<Longrightarrow>
    (a_write_fails (env attempt) \<or>
     update_promo (a_before_write (env attempt) (a_before_read (env attempt) st)) code
       (patchPayload (a_now (env attempt)) u promo) = None) \<Longrightarrow>
      claim_loop pd env code u maxRetries attempt st log =
        claim_loop pd env code u maxRetries (attempt + 1)
          (a_before_write (env attempt) (a_before_read (env attempt) st))
          (log @ [Fetched attempt, Sleep 100])"
    using claim_loop_write_fails [where env = env and attempt = attempt and log = log] by simp
  have b: "attempt < maxRetries \<Longrightarrow>
    claim_precheck pd (a_now (env attempt)) (a_before_read (env attempt) st code) = Inr promo \<Longrightarrow>
    \<not> a_write_fails (env attempt) \<Longrightarrow>
    update_promo (a_before_write (env attempt) (a_before_read (env attempt) st)) code
       (patchPayload (a_now (env attempt)) u promo) = Some st3 \<Longrightarrow>
    \<not> verified (after_of (a_before_verify (env attempt) st3) code)
         (patch_used_count (patchPayload (a_now (env attempt)) u promo)) \<Longrightarrow>
      claim_loop pd env code u maxRetries attempt st log =
        claim_loop pd env code u maxRetries (attempt + 1) (a_before_verify (env attempt) st3)
          (log @ [Fetched attempt, Wrote attempt, Sleep 80])"
    using claim_loop_mismatch [where env = env and attempt = attempt and log = log] by simp
  have c: "\<not> attempt < maxRetries \<Longrightarrow>
      claim_loop pd env code u maxRetries attempt st log = (Inl RACE_FAILED, st, log)"
    by (rule claim_loop_exhausted)
  from claim_loop_log [of 0 maxRetries pd env code u st "[]"]
  have d: "log_ok maxRetries 0 (fst (claimPromoCodeAtomic pd env code u maxRetries st))
             (snd (snd (claimPromoCodeAtomic pd env code u maxRetries st)))"
    by (auto simp: claimPromoCodeAtomic_def)
  show ?thesis
    using a b c d unfolding log_ok_def by simp
qed

lemma ex_precheck_passes:
  "claim_precheck ex_pd ex_now (promo_codes ex_db ''OORABC123'') = Inr ex_promo"
  by (simp add: claim_precheck_def ex_db_def ex_promo_def is_expired_def usedCount_of_def
      maxUses_of_def nullish_or_def js_ge_def)

lemma ex_patch_count: "patch_used_count (patchPayload ex_now ''user42'' ex_promo) = Some 1"
  by (simp add: patchPayload_def usedCount_of_def ex_promo_def nullish_or_def js_add_def)

lemma ex_all_writes_fail:
  "fst (claimPromoCodeAtomic ex_pd failing_env ''OORABC123'' ''user42'' 4 (promo_codes ex_db)) =
     Inl RACE_FAILED"
  by code_simp

theorem claim_retries_bounded_witness:
  "claim_loop ex_pd failing_env ''OORABC123'' ''user42'' 4 0 (promo_codes ex_db) [] =
     claim_loop ex_pd failing_env ''OORABC123'' ''user42'' 4 (0 + 1) (promo_codes ex_db)
       ([] @ [Fetched 0, Sleep 100]) \<and>
   claim_loop ex_pd racing_env ''OORABC123'' ''user42'' 4 0 (promo_codes ex_db) [] =
     claim_loop ex_pd racing_env ''OORABC123'' ''user42'' 4 (0 + 1)
       (a_before_verify (racing_env 0)
          ((promo_codes ex_db)(''OORABC123'' \<mapsto>
             ex_promo\<lparr>p_used_count := JNum 1, p_last_used_by := ''user42'',
                       p_last_used_at := nowIso ex_now,
                       p_used_by := [(''user42'', nowIso ex_now)]\<rparr>)))
       ([] @ [Fetched 0, Wrote 0, Sleep 80]) \<and>
   claim_loop ex_pd failing_env ''OORABC123'' ''user42'' 4 4 (promo_codes ex_db) [] =
     (Inl RACE_FAILED, promo_codes ex_db, []) \<and>
   fst (claimPromoCodeAtomic ex_pd failing_env ''OORABC123'' ''user42'' 4 (promo_codes ex_db)) =
     Inl RACE_FAILED \<and>
   length (filter is_Sleep
     (snd (snd (claimPromoCodeAtomic ex_pd failing_env ''OORABC123'' ''user42'' 4
        (promo_codes ex_db))))) = 4 \<and>
   length (filter is_Fetched
     (snd (snd (claimPromoCodeAtomic ex_pd failing_env ''OORABC123'' ''user42'' 4
        (promo_codes ex_db))))) \<le> 4"
proof -
  let ?st = "promo_codes ex_db"
  let ?st3 = "(promo_codes ex_db)(''OORABC123'' \<mapsto>
             ex_promo\<lparr>p_used_count := JNum 1, p_last_used_by := ''user42'',
                       p_last_used_at := nowIso ex_now,
                       p_used_by := [(''user42'', nowIso ex_now)]\<rparr>)"
  have f0: "a_now (failing_env 0) = ex_now" "a_before_read (failing_env 0) ?st = ?st"
    "a_before_write (failing_env 0) ?st = ?st" "a_write_fails (failing_env 0)"
    by (simp_all add: failing_env_def quiet_env_def)
  have r0: "a_now (racing_env 0) = ex_now" "a_before_read (racing_env 0) ?st = ?st"
    "a_before_write (racing_env 0) ?st = ?st" "\<not> a_write_fails (racing_env 0)"
    by (simp_all add: racing_env_def quiet_env_def)
  have up: "update_promo ?st ''OORABC123'' (patchPayload ex_now ''user42'' ex_promo) = Some ?st3"
    by (simp add: update_promo_def patchPayload_def usedCount_of_def nullish_or_def js_add_def
        ex_db_def ex_promo_def)
  have nv: "\<not> verified (after_of (a_before_verify (racing_env 0) ?st3) ''OORABC123'')
               (patch_used_count (patchPayload ex_now ''user42'' ex_promo))"
    by (simp add: ex_patch_count racing_env_def quiet_env_def after_of_def verified_def
        usedCount_of_def nullish_or_def js_eq_def)
  note th = claim_retries_bounded [where pd = ex_pd and code = "''OORABC123''" and u = "''user42''"
      and maxRetries = 4 and st = ?st and log = "[]" and promo = ex_promo]
  have a: "claim_loop ex_pd failing_env ''OORABC123'' ''user42'' 4 0 ?st [] =
     claim_loop ex_pd failing_env ''OORABC123'' ''user42'' 4 (0 + 1) ?st
       ([] @ [Fetched 0, Sleep 100])"
    using th [where env = failing_env and attempt = 0] ex_precheck_passes f0 by simp
  have b: "claim_loop ex_pd racing_env ''OORABC123'' ''user42'' 4 0 ?st [] =
     claim_loop ex_pd racing_env ''OORABC123'' ''user42'' 4 (0 + 1)
       (a_before_verify (racing_env 0) ?st3) ([] @ [Fetched 0, Wrote 0, Sleep 80])"
    using th [where env = racing_env and attempt = 0 and ?st3.0 = ?st3] ex_precheck_passes r0 up nv
    by simp
  have c: "claim_loop ex_pd failing_env ''OORABC123'' ''user42'' 4 4 ?st [] =
     (Inl RACE_FAILED, ?st, [])"
    using th [where env = failing_env and attempt = 4] by simp
  have d: "length (filter is_Sleep
     (snd (snd (claimPromoCodeAtomic ex_pd failing_env ''OORABC123'' ''user42'' 4 ?st)))) = 4"
    and e: "length (filter is_Fetched
     (snd (snd (claimPromoCodeAtomic ex_pd failing_env ''OORABC123'' ''user42'' 4 ?st)))) \<le> 4"
    using th [where env = failing_env and attempt = 0] ex_all_writes_fail by simp_all
  show ?thesis
    using a b c d e ex_all_writes_fail by blast
qed

section \<open>The used count under concurrent claims\<close>

lemma precheck_passes_below_cap:
  assumes "claim_precheck pd now (Some p) = Inr promo" and "within_cap p m"
  shows "promo = p \<and> (\<exists>used. usedCount_of p = Some used \<and> used < m \<and>
           patch_used_count (patchPayload now u promo) = Some (used + 1))"
  using assms
  by (auto simp: claim_precheck_def within_cap_def js_ge_def patchPayload_def js_add_def
      split: if_splits option.splits)

lemma within_cap_update:
  assumes "within_cap p m" and "n \<le> m"
  shows "within_cap (p\<lparr>p_used_count := JNum n, p_last_used_by := a, p_last_used_at := b,
                        p_used_by := c\<rparr>) m"
  using assms by (simp add: within_cap_def maxUses_of_def usedCount_of_def nullish_or_def)

lemma claimant_step_inv:
  assumes inv: "case st code of None \<Rightarrow> False | Some p \<Rightarrow> within_cap p m"
    and ok: "cl_code cl = code \<longrightarrow> pc_ok m (cl_pc cl)"
    and step: "claimant_step pd maxRetries now rejects st cl = (st', cl')"
  shows "(case st' code of None \<Rightarrow> False | Some p \<Rightarrow> within_cap p m) \<and>
         cl_code cl' = cl_code cl \<and>
         (cl_code cl' = code \<longrightarrow> pc_ok m (cl_pc cl'))"
proof -
  from inv obtain p where p: "st code = Some p" "within_cap p m"
    by (auto split: option.splits)
  show ?thesis
  proof (cases "cl_pc cl")
    case (AtRead attempt)
    show ?thesis
    proof (cases "cl_code cl = code")
      case True
      then show ?thesis
        using step AtRead p precheck_passes_below_cap [of pd now p _ m "cl_user cl"]
        by (auto simp: claimant_step_def pc_ok_def split: if_splits sum.splits)
    next
      case False
      then show ?thesis
        using step AtRead p
        by (auto simp: claimant_step_def pc_ok_def split: if_splits sum.splits)
    qed
  next
    case (AtWrite attempt pt)
    show ?thesis
    proof (cases "cl_code cl = code")
      case True
      then show ?thesis
        using step AtWrite p ok within_cap_update [OF p(2)]
        by (auto simp: claimant_step_def pc_ok_def update_promo_def split: if_splits option.splits)
    next
      case False
      then show ?thesis
        using step AtWrite p
        by (auto simp: claimant_step_def pc_ok_def update_promo_def split: if_splits option.splits)
    qed
  next
    case (AtVerify attempt n)
    then show ?thesis
      using step p
      by (auto simp: claimant_step_def pc_ok_def after_of_def Let_def split: if_splits)
  next
    case (Finished r)
    then show ?thesis
      using step p ok by (auto simp: claimant_step_def)
  qed
qed

lemma run_schedule_inv:
  "claim_inv code m s \<Longrightarrow> claim_inv code m (run_schedule pd maxRetries sched s)"
proof (induction sched arbitrary: s)
  case Nil
  then show ?case by simp
next
  case (Cons t ts)
  obtain st cls where s: "s = (st, cls)" by (cases s)
  show ?case
  proof (cases "tk_who t < length cls")
    case False
    then show ?thesis using Cons s by simp
  next
    case True
    obtain st' cl' where step:
      "claimant_step pd maxRetries (tk_now t) (tk_write_fails t) st (cls ! tk_who t) = (st', cl')"
      by (cases "claimant_step pd maxRetries (tk_now t) (tk_write_fails t) st (cls ! tk_who t)")
    have inv: "case st code of None \<Rightarrow> False | Some p \<Rightarrow> within_cap p m"
      and all: "list_all (\<lambda>cl. cl_code cl = code \<longrightarrow> pc_ok m (cl_pc cl)) cls"
      using Cons.prems s by (simp_all add: claim_inv_def)
    have ok: "cl_code (cls ! tk_who t) = code \<longrightarrow> pc_ok m (cl_pc (cls ! tk_who t))"
      using all True by (simp add: list_all_length)
    from claimant_step_inv [OF inv ok step]
    have st': "case st' code of None \<Rightarrow> False | Some p \<Rightarrow> within_cap p m"
      and cl': "cl_code cl' = code \<longrightarrow> pc_ok m (cl_pc cl')"
      by blast+
    have "list_all (\<lambda>cl. cl_code cl = code \<longrightarrow> pc_ok m (cl_pc cl)) (cls[tk_who t := cl'])"
      using all cl' set_update_subset_insert [of cls "tk_who t" cl']
      by (auto simp: list_all_iff)
    then have "claim_inv code m (st', cls[tk_who t := cl'])"
      using st' by (simp add: claim_inv_def)
    from Cons.IH [OF this] show ?thesis
      using s True step by simp
  qed
qed

text \<open>
  C1. Whatever number of requests claim at the same time and however the store
  operations of their attempts interleave, a code whose maximum is a number and whose
  used count starts at or below it keeps its used count at or below the maximum: after
  any schedule the stored record still has the same maximum and a used count that does
  not exceed it, and so has every record that a finished claimant reports as claimed.
  The reason is in the single attempt: it goes on to write only when the count it read is
  strictly below the maximum, and the count it writes is the count it read plus one.
\<close>

theorem used_count_never_exceeds_max:
  assumes "st0 code = Some p0"
    and "maxUses_of p0 = Some m" and "usedCount_of p0 = Some used0" and "used0 \<le> m"
    and "list_all (\<lambda>cl. \<exists>attempt. cl_pc cl = AtRead attempt) cls0"
    and "run_schedule pd maxRetries sched (st0, cls0) = (st, cls)"
  shows "(\<exists>p used. st code = Some p \<and> maxUses_of p = Some m \<and>
            usedCount_of p = Some used \<and> used \<le> m) \<and>
         list_all (\<lambda>cl. case cl_pc cl of
                     Finished (Inr after) \<Rightarrow>
                       cl_code cl = code \<longrightarrow>
                         (\<exists>used. usedCount_of after = Some used \<and> used \<le> m)
                   | _ \<Rightarrow> True) cls \<and>
         (maxUses_of p = Some m \<and> usedCount_of p = Some used \<and>
          claim_precheck pd now (Some p) = Inr promo \<longrightarrow>
            promo = p \<and> used < m \<and>
            patch_used_count (patchPayload now u promo) = Some (used + 1))"
proof -
  have "claim_inv code m (st0, cls0)"
    using assms(1-5)
    by (auto simp: claim_inv_def within_cap_def pc_ok_def list_all_iff)
  from run_schedule_inv [OF this, of pd maxRetries sched]
  have inv: "claim_inv code m (st, cls)"
    using assms(6) by simp
  have 1: "\<exists>p used. st code = Some p \<and> maxUses_of p = Some m \<and>
            usedCount_of p = Some used \<and> used \<le> m"
    using inv by (auto simp: claim_inv_def within_cap_def split: option.splits)
  have 2: "list_all (\<lambda>cl. case cl_pc cl of
                     Finished (Inr after) \<Rightarrow>
                       cl_code cl = code \<longrightarrow>
                         (\<exists>used. usedCount_of after = Some used \<and> used \<le> m)
                   | _ \<Rightarrow> True) cls"
    unfolding list_all_iff
  proof
    fix cl assume "cl \<in> set cls"
    with inv have ok: "cl_code cl = code \<longrightarrow> pc_ok m (cl_pc cl)"
      by (simp add: claim_inv_def list_all_iff)
    show "case cl_pc cl of
            Finished (Inr after) \<Rightarrow>
              cl_code cl = code \<longrightarrow> (\<exists>used. usedCount_of after = Some used \<and> used \<le> m)
          | _ \<Rightarrow> True"
      using ok
      by (auto simp: pc_ok_def within_cap_def split: pc.splits sum.splits option.splits)
  qed
  have 3: "maxUses_of p = Some m \<and> usedCount_of p = Some used \<and>
          claim_precheck pd now (Some p) = Inr promo \<longrightarrow>
            promo = p \<and> used < m \<and>
            patch_used_count (patchPayload now u promo) = Some (used + 1)"
    by (auto simp: claim_precheck_def js_ge_def patchPayload_def js_add_def split: if_splits)
  show ?thesis
    using 1 2 3 by blast
qed

lemma ex_race_store:
  "map_option usedCount_of
     (fst (run_schedule ex_pd 4 ex_schedule (promo_codes ex_db, ex_racers)) ''OORABC123'') =
   Some (Some 1)"
  by code_simp

lemma ex_race_results:
  "map (\<lambda>cl. case cl_pc cl of Finished (Inr after) \<Rightarrow> usedCount_of after | _ \<Rightarrow> None)
     (snd (run_schedule ex_pd 4 ex_schedule (promo_codes ex_db, ex_racers))) =
   [Some 1, Some 1]"
  by code_simp

theorem used_count_never_exceeds_max_witness:
  "promo_codes ex_db ''OORABC123'' = Some ex_promo \<and>
   maxUses_of ex_promo = Some 1 \<and> usedCount_of ex_promo = Some 0 \<and> (0::int) \<le> 1 \<and>
   list_all (\<lambda>cl. \<exists>attempt. cl_pc cl = AtRead attempt) ex_racers \<and>
   (\<exists>p used. fst (run_schedule ex_pd 4 ex_schedule (promo_codes ex_db, ex_racers)) ''OORABC123'' =
        Some p \<and> maxUses_of p = Some 1 \<and> usedCount_of p = Some used \<and> used \<le> 1) \<and>
   map_option usedCount_of
     (fst (run_schedule ex_pd 4 ex_schedule (promo_codes ex_db, ex_racers)) ''OORABC123'') =
     Some (Some 1) \<and>
   map (\<lambda>cl. case cl_pc cl of Finished (Inr after) \<Rightarrow> usedCount_of after | _ \<Rightarrow> None)
     (snd (run_schedule ex_pd 4 ex_schedule (promo_codes ex_db, ex_racers))) =
     [Some 1, Some 1] \<and>
   claim_precheck ex_pd ex_now (Some ex_promo) = Inr ex_promo \<and>
   (0::int) < 1 \<and>
   patch_used_count (patchPayload ex_now ''user42'' ex_promo) = Some (0 + 1)"
proof -
  let ?run = "run_schedule ex_pd 4 ex_schedule (promo_codes ex_db, ex_racers)"
  have h1: "promo_codes ex_db ''OORABC123'' = Some ex_promo"
    by (simp add: ex_db_def)
  have h2: "maxUses_of ex_promo = Some 1" and h3: "usedCount_of ex_promo = Some 0"
    by (simp_all add: maxUses_of_def usedCount_of_def nullish_or_def ex_promo_def)
  have h4: "(0::int) \<le> 1" by simp
  have h5: "list_all (\<lambda>cl. \<exists>attempt. cl_pc cl = AtRead attempt) ex_racers"
    by (simp add: ex_racers_def)
  have h6: "?run = (fst ?run, snd ?run)" by simp
  have pc: "claim_precheck ex_pd ex_now (Some ex_promo) = Inr ex_promo"
    using ex_precheck_passes by (simp add: ex_db_def)
  note th = used_count_never_exceeds_max [OF h1 h2 h3 h4 h5 h6,
      where p = ex_promo and used = 0 and now = ex_now and promo = ex_promo and u = "''user42''"]
  from th have a: "\<exists>p used. fst ?run ''OORABC123'' = Some p \<and> maxUses_of p = Some 1 \<and>
      usedCount_of p = Some used \<and> used \<le> 1"
    by (rule conjunct1)
  from th h2 h3 pc have b: "(0::int) < 1 \<and>
      patch_used_count (patchPayload ex_now ''user42'' ex_promo) = Some (0 + 1)"
    by blast
  show ?thesis
    using h1 h2 h3 h5 a b pc ex_race_store ex_race_results by simp
qed

section \<open>What the selection returns\<close>

lemma consider_entry_Some:
  "consider_entry tz today slotId slotPlatform (key, node) = Some c \<longleftrightarrow>
     (\<exists>n. node = Node n \<and> startsWith key ''cred'' \<and>
          (owns_slot slotId n \<or> owns_platform slotPlatform n \<or> owns_all n) \<and>
          \<not> is_locked n \<and> \<not> usage_capped n \<and> \<not> past_expiry tz today n \<and>
          c = \<lparr>cand_key = key, cand_node = n, appliesSlot = owns_slot slotId n,
               appliesPlat = owns_platform slotPlatform n, appliesAll = owns_all n\<rparr>)"
  by (cases node)
     (auto simp: consider_entry_def owns_slot_def owns_platform_def owns_all_def is_locked_def
        usage_capped_def past_expiry_def Let_def)

lemma candidates_of_iff:
  "c \<in> set (candidates_of tz today rt slotId slotPlatform) \<longleftrightarrow>
     (\<exists>key n. (key, Node n) \<in> set rt \<and> startsWith key ''cred'' \<and>
          (owns_slot slotId n \<or> owns_platform slotPlatform n \<or> owns_all n) \<and>
          \<not> is_locked n \<and> \<not> usage_capped n \<and> \<not> past_expiry tz today n \<and>
          c = \<lparr>cand_key = key, cand_node = n, appliesSlot = owns_slot slotId n,
               appliesPlat = owns_platform slotPlatform n, appliesAll = owns_all n\<rparr>)"
proof -
  have "c \<in> set (candidates_of tz today rt slotId slotPlatform) \<longleftrightarrow>
        (\<exists>e \<in> set rt. consider_entry tz today slotId slotPlatform e = Some c)"
    unfolding candidates_of_def by (induction rt) (auto split: option.splits)
  also have "\<dots> \<longleftrightarrow> (\<exists>key node. (key, node) \<in> set rt \<and>
        consider_entry tz today slotId slotPlatform (key, node) = Some c)"
    by auto
  finally show ?thesis
    unfolding consider_entry_Some by blast
qed

lemma select_result:
  "selectCredentialForSlot tz today rt slotId slt =
     (let cands = candidates_of tz today rt slotId (toLowerCase (s_platform slt))
      in map_option (\<lambda>best. (cand_key best, cand_node best))
           (case find appliesSlot cands of
              Some best \<Rightarrow> Some best
            | None \<Rightarrow> (case find appliesPlat cands of
                         Some best \<Rightarrow> Some best
                       | None \<Rightarrow> find appliesAll cands)))"
  by (auto simp: selectCredentialForSlot_def Let_def split: option.splits)

lemma days_from_civil_succ: "days_from_civil y m (d + 1) = days_from_civil y m d + 1"
  by (simp add: days_from_civil_def Let_def)

lemma mkDate_next_day:
  assumes "y < 0 \<or> 99 < y" "1 \<le> mo" "mo \<le> 12"
  shows "mkDate tz (Some y) (js_add (Some mo) (- 1)) (js_add (Some d) 1) =
           Some ((days_from_civil y mo d + 1) * ms_per_day - tz)"
proof -
  have "(mo - 1) div 12 = 0" "(mo - 1) mod 12 + 1 = mo"
    using assms(2,3) by simp_all
  then show ?thesis
    using assms(1) by (auto simp: mkDate_def js_add_def days_from_civil_succ)
qed

lemma expiry_passed_wellformed:
  assumes "map parseInt_str (split_on (CHR ''-'') s) = Some y # Some mo # Some d # rest"
    and "y < 0 \<or> 99 < y" "1 \<le> mo" "mo \<le> 12"
  shows "expiry_passed tz today (JStr s) \<longleftrightarrow>
           s \<noteq> [] \<and> (days_from_civil y mo d + 1) * ms_per_day < today + tz"
proof -
  have "expiry_passed tz today (JStr s) \<longleftrightarrow>
          s \<noteq> [] \<and> js_lt (mkDate tz (Some y) (js_add (Some mo) (- 1)) (js_add (Some d) 1)) (Some today)"
    using assms(1) by (simp add: expiry_passed_def nth_or_nan_def Let_def)
  then show ?thesis
    unfolding mkDate_next_day [OF assms(2-4)] by (auto simp: js_lt_def)
qed

lemma day_compare:
  fixes x b E :: int
  assumes "0 < b"
  shows "x div b \<le> E \<Longrightarrow> \<not> (E + 1) * b < x"
    and "x div b = E + 1 \<Longrightarrow> ((E + 1) * b < x \<longleftrightarrow> x mod b \<noteq> 0)"
    and "E + 2 \<le> x div b \<Longrightarrow> (E + 1) * b < x"
proof -
  have x: "x = x div b * b + x mod b" by simp
  have r: "0 \<le> x mod b" "x mod b < b" using assms by simp_all
  show "\<not> (E + 1) * b < x" if "x div b \<le> E"
  proof -
    have "x div b * b \<le> E * b" using that assms by (simp add: mult_right_mono)
    then have "x < E * b + b" using x r by linarith
    then show ?thesis by (simp add: algebra_simps)
  qed
  show "(E + 1) * b < x \<longleftrightarrow> x mod b \<noteq> 0" if "x div b = E + 1"
  proof -
    have "x = (E + 1) * b + x mod b" using x that by simp
    then show ?thesis using r by linarith
  qed
  show "(E + 1) * b < x" if "E + 2 \<le> x div b"
  proof -
    have "(E + 2) * b \<le> x div b * b" using that assms by (simp add: mult_right_mono)
    then have "(E + 2) * b \<le> x" using x r by linarith
    moreover have "(E + 1) * b < (E + 2) * b" using assms by (simp add: algebra_simps)
    ultimately show ?thesis by linarith
  qed
qed

lemma find_SomeD: "find P xs = Some x \<Longrightarrow> P x \<and> x \<in> set xs"
  by (induction xs) (auto split: if_splits)

lemma candidate_facts:
  assumes "c \<in> set (candidates_of tz today rt slotId slotPlatform)"
  shows "(cand_key c, Node (cand_node c)) \<in> set rt"
    and "startsWith (cand_key c) ''cred''"
    and "\<not> is_locked (cand_node c)"
    and "\<not> usage_capped (cand_node c)"
    and "\<not> past_expiry tz today (cand_node c)"
    and "appliesSlot c = owns_slot slotId (cand_node c)"
    and "appliesPlat c = owns_platform slotPlatform (cand_node c)"
    and "appliesAll c = owns_all (cand_node c)"
    and "appliesSlot c \<or> appliesPlat c \<or> appliesAll c"
  using assms unfolding candidates_of_iff by auto

lemma select_None_iff:
  "selectCredentialForSlot tz today rt slotId slt = None \<longleftrightarrow>
     candidates_of tz today rt slotId (toLowerCase (s_platform slt)) = []"
proof
  assume "candidates_of tz today rt slotId (toLowerCase (s_platform slt)) = []"
  then show "selectCredentialForSlot tz today rt slotId slt = None"
    by (simp add: selectCredentialForSlot_def)
next
  assume none: "selectCredentialForSlot tz today rt slotId slt = None"
  show "candidates_of tz today rt slotId (toLowerCase (s_platform slt)) = []"
  proof (rule ccontr)
    assume "candidates_of tz today rt slotId (toLowerCase (s_platform slt)) \<noteq> []"
    then obtain c where c: "c \<in> set (candidates_of tz today rt slotId (toLowerCase (s_platform slt)))"
      by (cases "candidates_of tz today rt slotId (toLowerCase (s_platform slt))") auto
    from candidate_facts(9) [OF c] have "appliesSlot c \<or> appliesPlat c \<or> appliesAll c" .
    with c have "find appliesSlot (candidates_of tz today rt slotId (toLowerCase (s_platform slt))) \<noteq> None \<or>
        find appliesPlat (candidates_of tz today rt slotId (toLowerCase (s_platform slt))) \<noteq> None \<or>
        find appliesAll (candidates_of tz today rt slotId (toLowerCase (s_platform slt))) \<noteq> None"
      by (auto simp: find_None_iff)
    with none show False
      by (auto simp: select_result Let_def split: option.splits)
  qed
qed

lemma select_Some:
  assumes "selectCredentialForSlot tz today rt slotId slt = Some (key, n)"
  defines "cands \<equiv> candidates_of tz today rt slotId (toLowerCase (s_platform slt))"
  shows "\<exists>c \<in> set cands. cand_key c = key \<and> cand_node c = n \<and>
           (if \<exists>c' \<in> set cands. appliesSlot c' then appliesSlot c
            else if \<exists>c' \<in> set cands. appliesPlat c' then appliesPlat c
            else appliesAll c)"
proof (cases "find appliesSlot cands")
  case (Some best)
  then have "key = cand_key best" "n = cand_node best"
    using assms(1) by (simp_all add: select_result cands_def)
  with find_SomeD [OF Some] show ?thesis by auto
next
  case None
  then have no_slot: "\<not> (\<exists>c' \<in> set cands. appliesSlot c')"
    by (simp add: find_None_iff)
  show ?thesis
  proof (cases "find appliesPlat cands")
    case (Some best)
    then have "key = cand_key best" "n = cand_node best"
      using assms(1) None by (simp_all add: select_result cands_def)
    with find_SomeD [OF Some] no_slot show ?thesis by auto
  next
    case None2: None
    then have no_plat: "\<not> (\<exists>c' \<in> set cands. appliesPlat c')"
      by (simp add: find_None_iff)
    from assms(1) None None2 obtain best where
      b: "find appliesAll cands = Some best" "key = cand_key best" "n = cand_node best"
      by (auto simp: select_result cands_def)
    with find_SomeD [OF b(1)] no_slot no_plat show ?thesis by auto
  qed
qed

text \<open>
  C4 (as stated: a resource whose expiry date is yesterday is never returned). The test
  is \<open>exp < today\<close> with \<open>exp\<close> the local midnight that ends the expiry date and
  \<open>today\<close> the current instant. At 2024-01-02 00:00:00.000 local time exactly, the
  credential whose expiry date is 2024-01-01 is returned.
\<close>

theorem expired_yesterday_counterexample:
  "civil_from_days ((1704153600000 + 0) div ms_per_day) = (2024, 1, 2) \<and>
   (1704153600000 + 0) div ms_per_day = days_from_civil 2024 1 1 + 1 \<and>
   selectCredentialForSlot 0 1704153600000
     [(''cred1'', Node (ex_cred\<lparr>c_expiry_date := JStr ''2024-01-01''\<rparr>))] ''premium'' ex_slot =
     Some (''cred1'', ex_cred\<lparr>c_expiry_date := JStr ''2024-01-01''\<rparr>)"
proof -
  have "civil_from_days ((1704153600000 + 0) div ms_per_day) = (2024, 1, 2)"
    by code_simp
  moreover have "(1704153600000 + 0) div ms_per_day = days_from_civil 2024 1 1 + 1"
    by code_simp
  moreover have "selectCredentialForSlot 0 1704153600000
     [(''cred1'', Node (ex_cred\<lparr>c_expiry_date := JStr ''2024-01-01''\<rparr>))] ''premium'' ex_slot =
     Some (''cred1'', ex_cred\<lparr>c_expiry_date := JStr ''2024-01-01''\<rparr>)"
    by code_simp
  ultimately show ?thesis by blast
qed

text \<open>
  C4 (amended). The candidates of \<open>selectCredentialForSlot\<close> are exactly the object
  nodes of the pool whose key starts with "cred", that serve the slot, its platform or
  "all", that are not locked (\<open>locked\<close> reads as 1), that have not reached a nonzero
  usage cap, and whose expiry date has not passed. The function returns none exactly
  when there is no candidate; otherwise it returns a candidate that serves the slot id if
  any candidate does, else one that serves the slot's platform if any does, else one
  that carries "all". For an expiry date that reads as three numbers y-m-d (month 1 to
  12, year outside 0..99), the date has passed exactly when the local midnight that ends
  that day lies strictly before the current instant: a date of today or later never
  excludes, a date of the day before yesterday or earlier always excludes, and a date of
  yesterday excludes at every instant of today but local midnight itself.
\<close>

theorem select_credential_eligible_by_priority:
  "(c \<in> set (candidates_of tz today rt slotId (toLowerCase (s_platform slt))) \<longleftrightarrow>
      (\<exists>k nd. (k, Node nd) \<in> set rt \<and> startsWith k ''cred'' \<and>
          (owns_slot slotId nd \<or> owns_platform (toLowerCase (s_platform slt)) nd \<or> owns_all nd) \<and>
          \<not> is_locked nd \<and> \<not> usage_capped nd \<and> \<not> past_expiry tz today nd \<and>
          c = \<lparr>cand_key = k, cand_node = nd, appliesSlot = owns_slot slotId nd,
               appliesPlat = owns_platform (toLowerCase (s_platform slt)) nd,
               appliesAll = owns_all nd\<rparr>)) \<and>
   (selectCredentialForSlot tz today rt slotId slt = None \<longleftrightarrow>
      candidates_of tz today rt slotId (toLowerCase (s_platform slt)) = []) \<and>
   (selectCredentialForSlot tz today rt slotId slt = Some (key, n) \<longrightarrow>
      (key, Node n) \<in> set rt \<and> startsWith key ''cred'' \<and>
      \<not> is_locked n \<and> \<not> usage_capped n \<and> \<not> past_expiry tz today n \<and>
      (if \<exists>c' \<in> set (candidates_of tz today rt slotId (toLowerCase (s_platform slt))).
             owns_slot slotId (cand_node c')
       then owns_slot slotId n
       else if \<exists>c' \<in> set (candidates_of tz today rt slotId (toLowerCase (s_platform slt))).
                  owns_platform (toLowerCase (s_platform slt)) (cand_node c')
            then owns_platform (toLowerCase (s_platform slt)) n
            else owns_all n)) \<and>
   (map parseInt_str (split_on (CHR ''-'') s) = Some y # Some mo # Some d # rest \<and> s \<noteq> [] \<and>
    (y < 0 \<or> 99 < y) \<and> 1 \<le> mo \<and> mo \<le> 12 \<longrightarrow>
      (expiry_passed tz today (JStr s) \<longleftrightarrow>
         (days_from_civil y mo d + 1) * ms_per_day < today + tz) \<and>
      ((today + tz) div ms_per_day \<le> days_from_civil y mo d \<longrightarrow>
         \<not> expiry_passed tz today (JStr s)) \<and>
      ((today + tz) div ms_per_day = days_from_civil y mo d + 1 \<longrightarrow>
         (expiry_passed tz today (JStr s) \<longleftrightarrow> (today + tz) mod ms_per_day \<noteq> 0)) \<and>
      (days_from_civil y mo d + 2 \<le> (today + tz) div ms_per_day \<longrightarrow>
         expiry_passed tz today (JStr s)))"
proof -
  let ?sp = "toLowerCase (s_platform slt)"
  let ?cands = "candidates_of tz today rt slotId ?sp"
  have 3: "(key, Node n) \<in> set rt \<and> startsWith key ''cred'' \<and>
      \<not> is_locked n \<and> \<not> usage_capped n \<and> \<not> past_expiry tz today n \<and>
      (if \<exists>c' \<in> set ?cands. owns_slot slotId (cand_node c') then owns_slot slotId n
       else if \<exists>c' \<in> set ?cands. owns_platform ?sp (cand_node c') then owns_platform ?sp n
            else owns_all n)"
    if sel: "selectCredentialForSlot tz today rt slotId slt = Some (key, n)"
  proof -
    from select_Some [OF sel] obtain best where
      b: "best \<in> set ?cands" "cand_key best = key" "cand_node best = n"
        "if \<exists>c' \<in> set ?cands. appliesSlot c' then appliesSlot best
         else if \<exists>c' \<in> set ?cands. appliesPlat c' then appliesPlat best
              else appliesAll best"
      by blast
    have s: "(\<exists>c' \<in> set ?cands. appliesSlot c') = (\<exists>c' \<in> set ?cands. owns_slot slotId (cand_node c'))"
      using candidate_facts(6) by blast
    have p: "(\<exists>c' \<in> set ?cands. appliesPlat c') = (\<exists>c' \<in> set ?cands. owns_platform ?sp (cand_node c'))"
      using candidate_facts(7) by blast
    have eqs: "appliesSlot best = owns_slot slotId n" "appliesPlat best = owns_platform ?sp n"
      "appliesAll best = owns_all n"
      using candidate_facts(6-8) [OF b(1)] b(3) by simp_all
    have pr: "if \<exists>c' \<in> set ?cands. owns_slot slotId (cand_node c') then owns_slot slotId n
       else if \<exists>c' \<in> set ?cands. owns_platform ?sp (cand_node c') then owns_platform ?sp n
            else owns_all n"
      using b(4) unfolding s p eqs .
    have facts: "(key, Node n) \<in> set rt" "startsWith key ''cred''"
      "\<not> is_locked n" "\<not> usage_capped n" "\<not> past_expiry tz today n"
      using candidate_facts(1-5) [OF b(1)] b(2,3) by simp_all
    show ?thesis
      using facts pr by (intro conjI)
  qed
  have 4: "(expiry_passed tz today (JStr s) \<longleftrightarrow>
         (days_from_civil y mo d + 1) * ms_per_day < today + tz) \<and>
      ((today + tz) div ms_per_day \<le> days_from_civil y mo d \<longrightarrow>
         \<not> expiry_passed tz today (JStr s)) \<and>
      ((today + tz) div ms_per_day = days_from_civil y mo d + 1 \<longrightarrow>
         (expiry_passed tz today (JStr s) \<longleftrightarrow> (today + tz) mod ms_per_day \<noteq> 0)) \<and>
      (days_from_civil y mo d + 2 \<le> (today + tz) div ms_per_day \<longrightarrow>
         expiry_passed tz today (JStr s))"
    if wf: "map parseInt_str (split_on (CHR ''-'') s) = Some y # Some mo # Some d # rest"
      "s \<noteq> []" "y < 0 \<or> 99 < y" "1 \<le> mo" "mo \<le> 12"
  proof -
    have pos: "0 < ms_per_day" by (simp add: ms_per_day_def)
    have e: "expiry_passed tz today (JStr s) \<longleftrightarrow>
         (days_from_civil y mo d + 1) * ms_per_day < today + tz"
      using expiry_passed_wellformed [OF wf(1,3,4,5)] wf(2) by simp
    show ?thesis
      unfolding e
      using day_compare [OF pos, where x = "today + tz" and E = "days_from_civil y mo d"]
      by blast
  qed
  have c3: "selectCredentialForSlot tz today rt slotId slt = Some (key, n) \<longrightarrow>
      (key, Node n) \<in> set rt \<and> startsWith key ''cred'' \<and>
      \<not> is_locked n \<and> \<not> usage_capped n \<and> \<not> past_expiry tz today n \<and>
      (if \<exists>c' \<in> set ?cands. owns_slot slotId (cand_node c') then owns_slot slotId n
       else if \<exists>c' \<in> set ?cands. owns_platform ?sp (cand_node c') then owns_platform ?sp n
            else owns_all n)"
    using 3 by (rule impI)
  have c4: "map parseInt_str (split_on (CHR ''-'') s) = Some y # Some mo # Some d # rest \<and> s \<noteq> [] \<and>
    (y < 0 \<or> 99 < y) \<and> 1 \<le> mo \<and> mo \<le> 12 \<longrightarrow>
      (expiry_passed tz today (JStr s) \<longleftrightarrow>
         (days_from_civil y mo d + 1) * ms_per_day < today + tz) \<and>
      ((today + tz) div ms_per_day \<le> days_from_civil y mo d \<longrightarrow>
         \<not> expiry_passed tz today (JStr s)) \<and>
      ((today + tz) div ms_per_day = days_from_civil y mo d + 1 \<longrightarrow>
         (expiry_passed tz today (JStr s) \<longleftrightarrow> (today + tz) mod ms_per_day \<noteq> 0)) \<and>
      (days_from_civil y mo d + 2 \<le> (today + tz) div ms_per_day \<longrightarrow>
         expiry_passed tz today (JStr s))"
  proof
    assume a: "map parseInt_str (split_on (CHR ''-'') s) = Some y # Some mo # Some d # rest \<and> s \<noteq> [] \<and>
      (y < 0 \<or> 99 < y) \<and> 1 \<le> mo \<and> mo \<le> 12"
    show "(expiry_passed tz today (JStr s) \<longleftrightarrow>
         (days_from_civil y mo d + 1) * ms_per_day < today + tz) \<and>
      ((today + tz) div ms_per_day \<le> days_from_civil y mo d \<longrightarrow>
         \<not> expiry_passed tz today (JStr s)) \<and>
      ((today + tz) div ms_per_day = days_from_civil y mo d + 1 \<longrightarrow>
         (expiry_passed tz today (JStr s) \<longleftrightarrow> (today + tz) mod ms_per_day \<noteq> 0)) \<and>
      (days_from_civil y mo d + 2 \<le> (today + tz) div ms_per_day \<longrightarrow>
         expiry_passed tz today (JStr s))"
      by (rule 4) (use a in simp_all)
  qed
  show ?thesis
    by (rule conjI [OF candidates_of_iff conjI [OF select_None_iff conjI [OF c3 c4]]])
qed

lemma ex_pool_selection:
  "selectCredentialForSlot 0 ex_now ex_pool ''premium'' ex_slot =
     Some (''cred5'', ex_cred\<lparr>c_expiry_date := JStr ''2024-03-05''\<rparr>)"
  by code_simp

lemma ex_date_parts:
  "map parseInt_str (split_on (CHR ''-'') ''2024-03-04'') = Some 2024 # Some 3 # Some 4 # []"
  "map parseInt_str (split_on (CHR ''-'') ''2024-03-05'') = Some 2024 # Some 3 # Some 5 # []"
  by (simp_all add: parseInt_str_def is_ws_def is_digit_def digits_val_def digit_val_def)

lemma ex_day_numbers:
  "(ex_now + 0) div ms_per_day = days_from_civil 2024 3 4 + 1"
  "(ex_now + 0) div ms_per_day \<le> days_from_civil 2024 3 5"
  "(ex_now + 0) mod ms_per_day \<noteq> 0"
  by (simp_all add: ex_now_def ms_per_day_def days_from_civil_def)

theorem select_credential_eligible_by_priority_witness:
  "selectCredentialForSlot 0 ex_now ex_pool ''premium'' ex_slot =
     Some (''cred5'', ex_cred\<lparr>c_expiry_date := JStr ''2024-03-05''\<rparr>) \<and>
   (''cred5'', Node (ex_cred\<lparr>c_expiry_date := JStr ''2024-03-05''\<rparr>)) \<in> set ex_pool \<and>
   startsWith ''cred5'' ''cred'' \<and>
   \<not> is_locked (ex_cred\<lparr>c_expiry_date := JStr ''2024-03-05''\<rparr>) \<and>
   \<not> usage_capped (ex_cred\<lparr>c_expiry_date := JStr ''2024-03-05''\<rparr>) \<and>
   \<not> past_expiry 0 ex_now (ex_cred\<lparr>c_expiry_date := JStr ''2024-03-05''\<rparr>) \<and>
   (ex_now + 0) div ms_per_day = days_from_civil 2024 3 4 + 1 \<and>
   (ex_now + 0) mod ms_per_day \<noteq> 0 \<and>
   expiry_passed 0 ex_now (JStr ''2024-03-04'') \<and>
   (ex_now + 0) div ms_per_day \<le> days_from_civil 2024 3 5 \<and>
   \<not> expiry_passed 0 ex_now (JStr ''2024-03-05'')"
proof -
  let ?n = "ex_cred\<lparr>c_expiry_date := JStr ''2024-03-05''\<rparr>"
  note th = select_credential_eligible_by_priority [where tz = 0 and today = ex_now
      and rt = ex_pool and slotId = "''premium''" and slt = ex_slot and key = "''cred5''" and n = ?n
      and mo = 3 and y = 2024 and rest = "[]"]
  from th [where s = "''2024-03-04''" and d = 4, THEN conjunct2, THEN conjunct2, THEN conjunct1,
      THEN mp, OF ex_pool_selection]
  have a: "(''cred5'', Node ?n) \<in> set ex_pool \<and> startsWith ''cred5'' ''cred'' \<and>
      \<not> is_locked ?n \<and> \<not> usage_capped ?n \<and> \<not> past_expiry 0 ex_now ?n"
    by blast
  have h4: "map parseInt_str (split_on (CHR ''-'') ''2024-03-04'') = Some 2024 # Some 3 # Some 4 # [] \<and>
      ''2024-03-04'' \<noteq> [] \<and> ((2024::int) < 0 \<or> 99 < (2024::int)) \<and> (1::int) \<le> 3 \<and> (3::int) \<le> 12"
    using ex_date_parts(1) by simp
  have h5: "map parseInt_str (split_on (CHR ''-'') ''2024-03-05'') = Some 2024 # Some 3 # Some 5 # [] \<and>
      ''2024-03-05'' \<noteq> [] \<and> ((2024::int) < 0 \<or> 99 < (2024::int)) \<and> (1::int) \<le> 3 \<and> (3::int) \<le> 12"
    using ex_date_parts(2) by simp
  note y4 = th [where s = "''2024-03-04''" and d = 4, THEN conjunct2, THEN conjunct2,
      THEN conjunct2, THEN mp, OF h4]
  note y5 = th [where s = "''2024-03-05''" and d = 5, THEN conjunct2, THEN conjunct2,
      THEN conjunct2, THEN mp, OF h5]
  from y4 [THEN conjunct2, THEN conjunct2, THEN conjunct1, THEN mp, OF ex_day_numbers(1)]
    ex_day_numbers(3)
  have b: "expiry_passed 0 ex_now (JStr ''2024-03-04'')"
    by blast
  from y5 [THEN conjunct2, THEN conjunct1, THEN mp, OF ex_day_numbers(2)]
  have c: "\<not> expiry_passed 0 ex_now (JStr ''2024-03-05'')" .
  show ?thesis
    using ex_pool_selection a b c ex_day_numbers by blast
qed

section \<open>The one-time code\<close>

lemma or_push_bit_disjoint:
  fixes d c :: nat
  assumes "d < 2 ^ n"
  shows "push_bit n c OR d = push_bit n c + d"
proof -
  have d: "take_bit n d = d" using assms by (simp add: take_bit_eq_mod)
  have "push_bit n c AND take_bit n d = 0"
    by (simp add: bit_eq_iff bit_simps)
  then have "push_bit n c AND d = 0" by (simp only: d)
  then show ?thesis by (simp add: disjunctive_add_eq_or)
qed

lemma or_bytes_nat:
  fixes a b c d :: nat
  assumes "a < 128" "b < 256" "c < 256" "d < 256"
  shows "push_bit 24 a OR push_bit 16 b OR push_bit 8 c OR d =
           a * 2 ^ 24 + b * 2 ^ 16 + c * 2 ^ 8 + d"
    and "a * 2 ^ 24 + b * 2 ^ 16 + c * 2 ^ 8 + d < 2 ^ 31"
proof -
  have d8: "d < 2 ^ 8" using assms(4) by simp
  have 1: "push_bit 8 c OR d = push_bit 8 c + d"
    by (rule or_push_bit_disjoint [OF d8])
  have b1: "push_bit 8 c + d < 2 ^ 16" using assms(3,4) by (simp add: push_bit_eq_mult)
  have 2: "push_bit 16 b OR (push_bit 8 c + d) = push_bit 16 b + (push_bit 8 c + d)"
    by (rule or_push_bit_disjoint [OF b1])
  have b2: "push_bit 16 b + (push_bit 8 c + d) < 2 ^ 24"
    using assms(2,3,4) by (simp add: push_bit_eq_mult)
  have 3: "push_bit 24 a OR (push_bit 16 b + (push_bit 8 c + d)) =
             push_bit 24 a + (push_bit 16 b + (push_bit 8 c + d))"
    by (rule or_push_bit_disjoint [OF b2])
  have "push_bit 24 a OR push_bit 16 b OR push_bit 8 c OR d =
          push_bit 24 a + (push_bit 16 b + (push_bit 8 c + d))"
    by (simp only: 1 2 3)
  then show "push_bit 24 a OR push_bit 16 b OR push_bit 8 c OR d =
           a * 2 ^ 24 + b * 2 ^ 16 + c * 2 ^ 8 + d"
    by (simp add: push_bit_eq_mult)
  show "a * 2 ^ 24 + b * 2 ^ 16 + c * 2 ^ 8 + d < 2 ^ 31"
    using assms by simp
qed

lemma unat_byte_lt: "unat (x :: 8 word) < 256"
  using unsigned_less [of x] by simp

lemma unat_ucast_byte: "unat (ucast (x :: 8 word) :: 32 word) = unat x"
  using unat_byte_lt [of x] by (simp add: unsigned_ucast_eq take_bit_eq_mod)

lemma unat_and_mask32: "unat ((w :: 32 word) AND mask n) = unat w mod 2 ^ n"
proof -
  have "unat (w AND mask n) = unat (take_bit n w)"
    by (simp add: take_bit_eq_mask)
  also have "\<dots> = take_bit n (unat w)"
    by (rule unsigned_take_bit_eq)
  finally show ?thesis
    by (simp add: take_bit_eq_mod)
qed

lemma unat_byte_and:
  "unat ((ucast (x :: 8 word) :: 32 word) AND 0x7f) = unat x mod 128"
  "unat ((ucast (x :: 8 word) :: 32 word) AND 0xff) = unat x"
  "unat ((ucast (x :: 8 word) :: 32 word) AND 0xf) = unat x mod 16"
proof -
  have m: "(0x7f :: 32 word) = mask 7" "(0xff :: 32 word) = mask 8" "(0xf :: 32 word) = mask 4"
    by (simp_all add: mask_eq_exp_minus_1)
  show "unat ((ucast x :: 32 word) AND 0x7f) = unat x mod 128"
    unfolding m unat_and_mask32 unat_ucast_byte by simp
  show "unat ((ucast x :: 32 word) AND 0xff) = unat x"
    unfolding m unat_and_mask32 unat_ucast_byte using unat_byte_lt [of x] by simp
  show "unat ((ucast x :: 32 word) AND 0xf) = unat x mod 16"
    unfolding m unat_and_mask32 unat_ucast_byte by simp
qed

lemma unat_push_bit_small:
  fixes w :: "32 word"
  assumes "unat w * 2 ^ n < 2 ^ 32"
  shows "unat (push_bit n w) = push_bit n (unat w)"
proof -
  have "unat (push_bit n w) = take_bit 32 (push_bit n (unat w))"
    using unsigned_push_bit_eq [of n w, where ?'a = nat] by simp
  also have "push_bit n (unat w) = unat w * 2 ^ n"
    by (rule push_bit_eq_mult)
  also have "take_bit 32 (unat w * 2 ^ n) = unat w * 2 ^ n"
    using assms by (simp add: take_bit_eq_mod)
  finally show ?thesis
    by (simp add: push_bit_eq_mult)
qed

lemma truncate_code_value:
  assumes "length h = 20"
  shows "unat (truncate_code h) = spec_truncate h"
    and "spec_truncate h < 2 ^ 31"
proof -
  let ?o = "unat (h ! 19) mod 16"
  have ne: "h \<noteq> []" using assms by auto
  have last: "last h = h ! 19" using assms ne by (simp add: last_conv_nth)
  have off: "dynamic_offset h = ?o"
    using assms ne by (simp add: dynamic_offset_def byte_at_def unat_byte_and(3))
  have lt: "?o + 3 < 20" by simp
  have b: "byte_at h ?o = ucast (h ! ?o)" "byte_at h (?o + 1) = ucast (h ! (?o + 1))"
    "byte_at h (?o + 2) = ucast (h ! (?o + 2))" "byte_at h (?o + 3) = ucast (h ! (?o + 3))"
    using assms lt by (simp_all add: byte_at_def)
  let ?a = "unat (h ! ?o) mod 128" and ?b = "unat (h ! (?o + 1))"
    and ?c = "unat (h ! (?o + 2))" and ?d = "unat (h ! (?o + 3))"
  have bounds: "?a < 128" "?b < 256" "?c < 256" "?d < 256"
    by (simp_all add: unat_byte_lt)
  have pa: "unat (push_bit 24 ((ucast (h ! ?o) :: 32 word) AND 0x7f)) = push_bit 24 ?a"
    using bounds(1) by (subst unat_push_bit_small) (simp_all add: unat_byte_and(1))
  have pb: "unat (push_bit 16 ((ucast (h ! (?o + 1)) :: 32 word) AND 0xff)) = push_bit 16 ?b"
    using bounds(2) by (subst unat_push_bit_small) (simp_all add: unat_byte_and(2))
  have pc: "unat (push_bit 8 ((ucast (h ! (?o + 2)) :: 32 word) AND 0xff)) = push_bit 8 ?c"
    using bounds(3) by (subst unat_push_bit_small) (simp_all add: unat_byte_and(2))
  have pd: "unat ((ucast (h ! (?o + 3)) :: 32 word) AND 0xff) = ?d"
    by (simp add: unat_byte_and(2))
  have "unat (truncate_code h) = push_bit 24 ?a OR push_bit 16 ?b OR push_bit 8 ?c OR ?d"
    unfolding truncate_code_def Let_def off b unsigned_or_eq pa pb pc pd ..
  also have "\<dots> = ?a * 2 ^ 24 + ?b * 2 ^ 16 + ?c * 2 ^ 8 + ?d"
    by (rule or_bytes_nat(1) [OF bounds])
  finally show "unat (truncate_code h) = spec_truncate h"
    by (simp add: spec_truncate_def last Let_def)
  show "spec_truncate h < 2 ^ 31"
    using or_bytes_nat(2) [OF bounds] by (simp add: spec_truncate_def last Let_def)
qed

lemma length_show_nat: "0 < k \<Longrightarrow> n < 10 ^ k \<Longrightarrow> length (show_nat n) \<le> k"
proof (induction k arbitrary: n)
  case 0
  then show ?case by simp
next
  case (Suc k)
  show ?case
  proof (cases "n < 10")
    case True
    then show ?thesis by (subst show_nat.simps) simp
  next
    case False
    then have k: "0 < k" using Suc.prems by (cases k) auto
    have "n div 10 < 10 ^ k" using Suc.prems(2) by (simp add: less_mult_imp_div_less mult.commute)
    from Suc.IH [OF k this] False show ?thesis
      by (subst show_nat.simps) simp
  qed
qed

lemma digits_show_nat: "list_all is_digit (show_nat n)"
proof (induction n rule: show_nat.induct)
  case (1 n)
  have d: "is_digit (char_of (48 + k))" if "k < 10" for k :: nat
    using that by (simp add: is_digit_def)
  show ?case
  proof (cases "n < 10")
    case True
    then show ?thesis by (subst show_nat.simps) (simp add: d)
  next
    case False
    with 1 show ?thesis by (subst show_nat.simps) (simp add: d)
  qed
qed

lemma be_value_counter: "be_value (writeBigUInt64BE t) = t mod 2 ^ 64"
proof -
  have s: "\<And>m n :: nat. m mod (256 * n) = 256 * (m div 256 mod n) + m mod 256"
    by (rule mod_mult2_eq)
  have d: "\<And>m n :: nat. m div (256 * n) = m div 256 div n"
    by (rule div_mult2_eq)
  have p: "(2::nat) ^ 64 = 256 * (256 * (256 * (256 * (256 * (256 * (256 * 256))))))"
    "(2::nat) ^ (8 * 7) = 256 * (256 * (256 * (256 * (256 * (256 * 256)))))"
    "(2::nat) ^ (8 * 6) = 256 * (256 * (256 * (256 * (256 * 256))))"
    "(2::nat) ^ (8 * 5) = 256 * (256 * (256 * (256 * 256)))"
    "(2::nat) ^ (8 * 4) = 256 * (256 * (256 * 256))"
    "(2::nat) ^ (8 * 3) = 256 * (256 * 256)"
    "(2::nat) ^ (8 * 2) = 256 * 256"
    "(2::nat) ^ (8 * 1) = 256"
    "(2::nat) ^ (8 * 0) = 1"
    by simp_all
  have u: "\<And>n. unat (of_nat n :: 8 word) = n mod 256"
    by (simp add: unat_of_nat)
  show ?thesis
    unfolding be_value_def writeBigUInt64BE_def
    by (simp only: list.map foldl.simps u p s d power_0 div_by_1 mult_0_right add_0_left)
qed

lemma length_counter: "length (writeBigUInt64BE t) = 8"
  by (simp add: writeBigUInt64BE_def)

lemma length_padStart: "length s \<le> w \<Longrightarrow> length (padStart w c s) = w"
  by (simp add: padStart_def)

lemma digits_padStart:
  "list_all is_digit s \<Longrightarrow> list_all is_digit (padStart w (CHR ''0'') s)"
  by (auto simp: padStart_def is_digit_def list_all_iff)

text \<open>
  The decoder: what each character of the secret contributes, the number that the bits
  spell, and from these the length and the big-endian value of the key, which determine
  the key.
\<close>

lemma b32_table:
  "\<forall>c :: char.
     (if is_ws c \<or> c = CHR ''='' then []
      else List.map_filter (indexOf b32_alphabet) (upperChars c)) = b32_values c"
  by code_simp

lemma b32_values_char:
  "(if is_ws c \<or> c = CHR ''='' then []
    else List.map_filter (indexOf b32_alphabet) (upperChars c)) = b32_values c"
  using b32_table by (rule spec)

lemma foldl_bits_acc:
  "foldl (\<lambda>a b. 2 * a + (if b then 1 else 0)) (acc::nat) bs =
     acc * 2 ^ length bs + foldl (\<lambda>a b. 2 * a + (if b then 1 else 0)) 0 bs"
  by (induction bs rule: rev_induct) (simp_all add: algebra_simps)

lemma bits_val_append:
  "bits_val (xs @ ys) = bits_val xs * 2 ^ length ys + bits_val ys"
  unfolding bits_val_def foldl_append by (rule foldl_bits_acc)

lemma bits_val_lt: "bits_val bs < 2 ^ length bs"
proof (induction bs rule: rev_induct)
  case Nil
  then show ?case by (simp add: bits_val_def)
next
  case (snoc b bs)
  then show ?case by (simp add: bits_val_append) (simp add: bits_val_def)
qed

lemma foldl_be_acc:
  "foldl (\<lambda>a b. 256 * a + unat (b :: 8 word)) (acc::nat) bs =
     acc * 256 ^ length bs + foldl (\<lambda>a b. 256 * a + unat b) 0 bs"
  by (induction bs rule: rev_induct) (simp_all add: algebra_simps)

lemma be_value_Cons: "be_value (x # xs) = unat x * 256 ^ length xs + be_value xs"
  unfolding be_value_def by (simp add: foldl_be_acc [of "unat x"])

lemma length_bytes_of_bits: "length (bytes_of_bits bs) = length bs div 8"
  by (induction bs rule: bytes_of_bits.induct) simp_all



lemma bits_val_byte:
  "unat (of_nat (foldl (\<lambda>a b. 2 * a + (if b then 1 else 0)) 0 [b7, b6, b5, b4, b3, b2, b1, b0]) :: 8 word) =
     bits_val [b7, b6, b5, b4, b3, b2, b1, b0]"
proof -
  have "bits_val [b7, b6, b5, b4, b3, b2, b1, b0] < 2 ^ length [b7, b6, b5, b4, b3, b2, b1, b0]"
    by (rule bits_val_lt)
  then have "bits_val [b7, b6, b5, b4, b3, b2, b1, b0] < 256" by simp
  then show ?thesis
    unfolding bits_val_def by (simp only: unat_of_nat) simp
qed

lemma shift_div:
  fixes h A B r :: nat
  assumes "0 < B"
  shows "(h * (A * B) + r) div B = h * A + r div B"
proof -
  have "(r + (h * A) * B) div B = h * A + r div B"
    using assms by simp
  then show ?thesis by (simp only: mult.assoc add.commute)
qed

lemma be_value_bytes_of_bits:
  "be_value (bytes_of_bits bs) = bits_val bs div 2 ^ (length bs mod 8)"
proof (induction bs rule: bytes_of_bits.induct)
  case (1 b7 b6 b5 b4 b3 b2 b1 b0 rest)
  let ?hd = "[b7, b6, b5, b4, b3, b2, b1, b0]"
  have split: "b7 # b6 # b5 # b4 # b3 # b2 # b1 # b0 # rest = ?hd @ rest" by simp
  have len: "length (b7 # b6 # b5 # b4 # b3 # b2 # b1 # b0 # rest) mod 8 = length rest mod 8"
    by simp
  have pw: "(2::nat) ^ length rest = 256 ^ (length rest div 8) * 2 ^ (length rest mod 8)"
  proof -
    have e: "8 * (length rest div 8) + length rest mod 8 = length rest" by simp
    have "(2::nat) ^ length rest = 2 ^ (8 * (length rest div 8) + length rest mod 8)"
      by (simp only: e)
    also have "\<dots> = 2 ^ (8 * (length rest div 8)) * 2 ^ (length rest mod 8)"
      by (rule power_add)
    also have "(2::nat) ^ (8 * (length rest div 8)) = (2 ^ 8) ^ (length rest div 8)"
      by (rule power_mult)
    finally show ?thesis by simp
  qed
  have "be_value (bytes_of_bits (b7 # b6 # b5 # b4 # b3 # b2 # b1 # b0 # rest)) =
          bits_val ?hd * 256 ^ (length rest div 8) + be_value (bytes_of_bits rest)"
    by (simp only: bytes_of_bits.simps be_value_Cons bits_val_byte length_bytes_of_bits)
  also have "\<dots> = bits_val ?hd * 256 ^ (length rest div 8) +
                     bits_val rest div 2 ^ (length rest mod 8)"
    by (simp only: 1)
  also have "\<dots> = (bits_val ?hd * 2 ^ length rest + bits_val rest) div 2 ^ (length rest mod 8)"
    by (subst pw) (rule shift_div [symmetric], simp)
  also have "\<dots> = bits_val (?hd @ rest) div 2 ^ (length rest mod 8)"
    by (simp only: bits_val_append)
  finally show ?case
    by (simp only: split [symmetric] len)
qed (auto simp: be_value_def bits_val_def)

lemma bits5_table: "\<forall>v \<in> {0..<32}. bits_val (bits5 v) = (v::nat)"
  by code_simp

lemma bits_val_bits5: "v < 32 \<Longrightarrow> bits_val (bits5 v) = v"
  using bits5_table by simp

lemma length_bits5: "length (bits5 v) = 5"
  by (simp add: bits5_def)

lemma b32_values_lt: "list_all (\<lambda>v. v < 32) (b32_values c)"
  by (auto simp: b32_values_def Let_def)

lemma b32_digits_lt: "list_all (\<lambda>v. v < 32) (b32_digits secret)"
  unfolding b32_digits_def
  by (induction secret) (simp_all add: b32_values_lt)

lemma length_bits_of_digits: "length (concat (map bits5 ds)) = 5 * length ds"
  by (induction ds) (simp_all add: length_bits5)

lemma bits_val_digits:
  "list_all (\<lambda>v. v < 32) ds \<Longrightarrow> bits_val (concat (map bits5 ds)) = b32_value ds"
proof (induction ds rule: rev_induct)
  case Nil
  then show ?case by (simp add: bits_val_def b32_value_def)
next
  case (snoc d ds)
  then have d: "d < 32" and ds: "list_all (\<lambda>v. v < 32) ds" by simp_all
  have "bits_val (concat (map bits5 (ds @ [d]))) = bits_val (concat (map bits5 ds)) * 2 ^ 5 + d"
    by (simp add: bits_val_append length_bits5 bits_val_bits5 [OF d])
  also have "\<dots> = 32 * b32_value ds + d"
    by (simp add: snoc.IH [OF ds])
  also have "\<dots> = b32_value (ds @ [d])"
    by (simp add: b32_value_def)
  finally show ?case .
qed

lemma bits_of_symbols:
  "concat (map (\<lambda>ch. case indexOf a ch of None \<Rightarrow> [] | Some v \<Rightarrow> bits5 v) xs) =
     concat (map bits5 (List.map_filter (indexOf a) xs))"
  by (induction xs) (simp_all split: option.splits)

lemma map_filter_append: "List.map_filter f (xs @ ys) = List.map_filter f xs @ List.map_filter f ys"
  by (simp add: List.map_filter_def)

lemma symbols_of_secret:
  "List.map_filter (indexOf b32_alphabet)
     (toUpperCase (filter (\<lambda>c. \<not> is_ws c \<and> c \<noteq> CHR ''='') secret)) = b32_digits secret"
proof (induction secret)
  case Nil
  then show ?case by (simp add: toUpperCase_def b32_digits_def)
next
  case (Cons c cs)
  show ?case
  proof (cases "is_ws c \<or> c = CHR ''=''")
    case True
    then have "b32_values c = []" using b32_values_char [of c] by simp
    with True Cons show ?thesis by (auto simp: b32_digits_def)
  next
    case False
    then have "List.map_filter (indexOf b32_alphabet) (upperChars c) = b32_values c"
      using b32_values_char [of c] by simp
    with False Cons show ?thesis
      by (simp add: b32_digits_def toUpperCase_def map_filter_append)
  qed
qed

lemma base32ToBuffer_bits:
  "base32ToBuffer secret = bytes_of_bits (concat (map bits5 (b32_digits secret)))"
  unfolding base32ToBuffer_def Let_def bits_of_symbols symbols_of_secret ..

lemma base32ToBuffer_value:
  "length (base32ToBuffer secret) = 5 * length (b32_digits secret) div 8"
  "be_value (base32ToBuffer secret) =
     b32_value (b32_digits secret) div 2 ^ (5 * length (b32_digits secret) mod 8)"
  unfolding base32ToBuffer_bits length_bytes_of_bits be_value_bytes_of_bits
    length_bits_of_digits bits_val_digits [OF b32_digits_lt]
  by (rule refl)+

lemma be_value_lt: "be_value bs < 256 ^ length bs"
proof (induction bs)
  case Nil
  then show ?case by (simp add: be_value_def)
next
  case (Cons b bs)
  have "unat b < 256" using unsigned_less [of b] by simp
  then have "unat b * 256 ^ length bs + be_value bs < (unat b + 1) * 256 ^ length bs"
    using Cons by simp
  also have "\<dots> \<le> 256 * 256 ^ length bs"
    using \<open>unat b < 256\<close> by (intro mult_right_mono) simp_all
  finally show ?case by (simp add: be_value_Cons)
qed

lemma be_value_inj:
  "length xs = length ys \<Longrightarrow> be_value xs = be_value ys \<Longrightarrow> xs = ys"
proof (induction xs ys rule: list_induct2)
  case Nil
  then show ?case by simp
next
  case (Cons x xs y ys)
  let ?B = "(256::nat) ^ length xs"
  have eq: "unat x * ?B + be_value xs = unat y * ?B + be_value ys"
    using Cons.prems Cons.hyps by (simp add: be_value_Cons)
  have lx: "be_value xs < ?B" by (rule be_value_lt)
  have ly: "be_value ys < ?B" using be_value_lt [of ys] Cons.hyps by simp
  have "(unat x * ?B + be_value xs) div ?B = unat x" using lx by simp
  moreover have "(unat y * ?B + be_value ys) div ?B = unat y" using ly by simp
  ultimately have xy: "unat x = unat y" using eq by simp
  then have "be_value xs = be_value ys" using eq by simp
  then have "xs = ys" by (rule Cons.IH)
  moreover have "x = y" using xy by (simp only: word_unat_eq_iff)
  ultimately show ?case by simp
qed

lemma generateTotp_eq:
  assumes "0 < step"
  shows "generateTotp hmac secret now step digits =
     Some (padStart digits (CHR ''0'')
             (show_nat (unat (truncate_code
                (hmac (base32ToBuffer secret) (writeBigUInt64BE (now div 1000 div step))))
                mod 10 ^ digits)),
           step - (now div 1000) mod step)"
  using assms by (simp add: generateTotp_def Let_def div_mult2_eq)

text \<open>
  C7. \<open>generateTotp\<close> decodes the base-32 secret into the key: with the symbols of the
  secret read as digits in base 32 (letters in either case, the digits 2 to 7; white
  space, padding and every other character skipped), the key has one byte for every
  eight bits of the symbols and spells, as a big-endian number, the number that the
  symbols spell without the bits left over; no other byte string does. It hands the keyed
  hash this key and the counter \<open>floor(floor(now / 1000) / step)\<close> written as eight
  big-endian bytes; from the twenty-byte digest it takes the low four bits of the last
  byte as offset and reads the four bytes there as a big-endian number below \<open>2^31\<close>
  (top bit of the first byte masked off); the code is that number modulo \<open>10^digits\<close>,
  left-padded with zeros to \<open>digits\<close> decimal characters; the remaining validity is
  \<open>step - (floor(now / 1000) mod step)\<close>, between 1 and \<open>step\<close>; and two calls whose
  clocks fall in the same window give the same code.
\<close>

theorem totp_truncation_and_validity:
  assumes "0 < step"
    and "length (hmac (base32ToBuffer secret)
           (writeBigUInt64BE (now div 1000 div step))) = 20"
  shows "length (base32ToBuffer secret) = 5 * length (b32_digits secret) div 8 \<and>
         be_value (base32ToBuffer secret) =
           b32_value (b32_digits secret) div 2 ^ (5 * length (b32_digits secret) mod 8) \<and>
         (\<forall>key. length key = 5 * length (b32_digits secret) div 8 \<and>
                be_value key =
                  b32_value (b32_digits secret) div 2 ^ (5 * length (b32_digits secret) mod 8) \<longrightarrow>
                base32ToBuffer secret = key) \<and>
         generateTotp hmac secret now step digits =
           Some (padStart digits (CHR ''0'')
                   (show_nat (spec_truncate
                      (hmac (base32ToBuffer secret)
                         (writeBigUInt64BE (now div 1000 div step))) mod 10 ^ digits)),
                 step - (now div 1000) mod step) \<and>
         length (writeBigUInt64BE (now div 1000 div step)) = 8 \<and>
         be_value (writeBigUInt64BE (now div 1000 div step)) = (now div 1000 div step) mod 2 ^ 64 \<and>
         spec_truncate (hmac (base32ToBuffer secret)
           (writeBigUInt64BE (now div 1000 div step))) < 2 ^ 31 \<and>
         (0 < digits \<longrightarrow>
            (\<exists>code rem. generateTotp hmac secret now step digits = Some (code, rem) \<and>
               length code = digits \<and> list_all is_digit code \<and> 0 < rem \<and> rem \<le> step)) \<and>
         (now' div 1000 div step = now div 1000 div step \<longrightarrow>
            map_option fst (generateTotp hmac secret now' step digits) =
            map_option fst (generateTotp hmac secret now step digits))"
proof -
  let ?hm = "hmac (base32ToBuffer secret) (writeBigUInt64BE (now div 1000 div step))"
  let ?code = "padStart digits (CHR ''0'') (show_nat (spec_truncate ?hm mod 10 ^ digits))"
  have k1: "length (base32ToBuffer secret) = 5 * length (b32_digits secret) div 8"
    by (rule base32ToBuffer_value(1))
  have k2: "be_value (base32ToBuffer secret) =
           b32_value (b32_digits secret) div 2 ^ (5 * length (b32_digits secret) mod 8)"
    by (rule base32ToBuffer_value(2))
  have k3: "\<forall>key. length key = 5 * length (b32_digits secret) div 8 \<and>
                be_value key =
                  b32_value (b32_digits secret) div 2 ^ (5 * length (b32_digits secret) mod 8) \<longrightarrow>
                base32ToBuffer secret = key"
  proof (intro allI impI, elim conjE)
    fix key :: "8 word list"
    assume "length key = 5 * length (b32_digits secret) div 8"
      and "be_value key =
             b32_value (b32_digits secret) div 2 ^ (5 * length (b32_digits secret) mod 8)"
    then have "length (base32ToBuffer secret) = length key"
      and "be_value (base32ToBuffer secret) = be_value key"
      by (simp_all only: k1 k2)
    then show "base32ToBuffer secret = key" by (rule be_value_inj)
  qed
  have g: "generateTotp hmac secret now step digits =
             Some (?code, step - (now div 1000) mod step)"
    unfolding generateTotp_eq [OF assms(1)] truncate_code_value(1) [OF assms(2)] ..
  have len: "length ?code = digits" if "0 < digits"
  proof -
    have "spec_truncate ?hm mod 10 ^ digits < 10 ^ digits" by simp
    from length_show_nat [OF that this] show ?thesis by (rule length_padStart)
  qed
  have dig: "list_all is_digit ?code"
    by (rule digits_padStart) (rule digits_show_nat)
  have rem: "0 < step - (now div 1000) mod step" "step - (now div 1000) mod step \<le> step"
    using assms(1) by simp_all
  have five: "0 < digits \<longrightarrow>
            (\<exists>code rem. generateTotp hmac secret now step digits = Some (code, rem) \<and>
               length code = digits \<and> list_all is_digit code \<and> 0 < rem \<and> rem \<le> step)"
    using g len dig rem by blast
  have six: "now' div 1000 div step = now div 1000 div step \<longrightarrow>
            map_option fst (generateTotp hmac secret now' step digits) =
            map_option fst (generateTotp hmac secret now step digits)"
    by (simp add: generateTotp_eq [OF assms(1)])
  show ?thesis
    by (rule conjI [OF k1 conjI [OF k2 conjI [OF k3 conjI [OF g conjI [OF length_counter
          conjI [OF be_value_counter conjI [OF truncate_code_value(2) [OF assms(2)]
          conjI [OF five six]]]]]]]])
qed

lemma ex_secret_digits:
  "b32_digits ''gezd gnbv GY3T QOJQ='' = [6, 4, 25, 3, 6, 13, 1, 21, 6, 24, 27, 19, 16, 14, 9, 16]"
  by code_simp

lemma ex_secret_value:
  "b32_value [6, 4, 25, 3, 6, 13, 1, 21, 6, 24, 27, 19, 16, 14, 9, 16] = 232321984496799787268400"
  "be_value [49, 50, 51, 52, 53, 54, 55, 56, 57, 48] = 232321984496799787268400"
  by (simp_all add: b32_value_def be_value_def)

lemma ex_counter_bytes: "writeBigUInt64BE (59000 div 1000 div 30) = [0, 0, 0, 0, 0, 0, 0, 1]"
  by (simp add: writeBigUInt64BE_def)

lemma ex_truncated: "spec_truncate ex_digest = 1357872921"
  by (simp add: spec_truncate_def ex_digest_def)

lemma ex_code_string: "padStart 6 (CHR ''0'') (show_nat (1357872921 mod 10 ^ 6)) = ''872921''"
  by (simp add: padStart_def show_nat.simps char_of_eq_iff)

theorem totp_truncation_and_validity_witness:
  "(0::nat) < 30 \<and>
   length (ex_hmac (base32ToBuffer ''gezd gnbv GY3T QOJQ='')
             (writeBigUInt64BE (59000 div 1000 div 30))) = 20 \<and>
   b32_digits ''gezd gnbv GY3T QOJQ='' =
     [6, 4, 25, 3, 6, 13, 1, 21, 6, 24, 27, 19, 16, 14, 9, 16] \<and>
   base32ToBuffer ''gezd gnbv GY3T QOJQ='' = [49, 50, 51, 52, 53, 54, 55, 56, 57, 48] \<and>
   writeBigUInt64BE (59000 div 1000 div 30) = [0, 0, 0, 0, 0, 0, 0, 1] \<and>
   generateTotp ex_hmac ''gezd gnbv GY3T QOJQ='' 59000 30 6 = Some (''872921'', 1) \<and>
   (31000::nat) div 1000 div 30 = 59000 div 1000 div 30 \<and>
   map_option fst (generateTotp ex_hmac ''gezd gnbv GY3T QOJQ='' 31000 30 6) =
     map_option fst (generateTotp ex_hmac ''gezd gnbv GY3T QOJQ='' 59000 30 6)"
proof -
  have h1: "(0::nat) < 30" by simp
  have h2: "length (ex_hmac (base32ToBuffer ''gezd gnbv GY3T QOJQ='')
             (writeBigUInt64BE (59000 div 1000 div 30))) = 20"
    by (simp add: ex_hmac_def ex_digest_def)
  have w: "(31000::nat) div 1000 div 30 = 59000 div 1000 div 30" by simp
  note th = totp_truncation_and_validity [where hmac = ex_hmac and step = 30
      and secret = "''gezd gnbv GY3T QOJQ=''" and now = 59000 and digits = 6 and now' = 31000,
      OF h1 h2]
  have "length [49, 50, 51, 52, 53, 54, 55, 56, 57, 48 :: 8 word] =
          5 * length (b32_digits ''gezd gnbv GY3T QOJQ='') div 8"
    and "be_value [49, 50, 51, 52, 53, 54, 55, 56, 57, 48] =
          b32_value (b32_digits ''gezd gnbv GY3T QOJQ='') div
            2 ^ (5 * length (b32_digits ''gezd gnbv GY3T QOJQ='') mod 8)"
    unfolding ex_secret_digits ex_secret_value by simp_all
  then have key: "base32ToBuffer ''gezd gnbv GY3T QOJQ='' = [49, 50, 51, 52, 53, 54, 55, 56, 57, 48]"
    using th [THEN conjunct2, THEN conjunct2, THEN conjunct1] by blast
  from th have "generateTotp ex_hmac ''gezd gnbv GY3T QOJQ='' 59000 30 6 =
      Some (padStart 6 (CHR ''0'')
              (show_nat (spec_truncate (ex_hmac (base32ToBuffer ''gezd gnbv GY3T QOJQ='')
                 (writeBigUInt64BE (59000 div 1000 div 30))) mod 10 ^ 6)),
            30 - (59000 div 1000) mod 30)"
    by (elim conjE)
  then have a: "generateTotp ex_hmac ''gezd gnbv GY3T QOJQ='' 59000 30 6 = Some (''872921'', 1)"
    unfolding key ex_counter_bytes ex_hmac_def if_P [OF conjI [OF refl refl]]
      ex_truncated ex_code_string
    by simp
  from th w have b: "map_option fst (generateTotp ex_hmac ''gezd gnbv GY3T QOJQ='' 31000 30 6) =
     map_option fst (generateTotp ex_hmac ''gezd gnbv GY3T QOJQ='' 59000 30 6)"
    by (elim conjE) (rule mp)
  show ?thesis
    using h1 h2 ex_secret_digits key ex_counter_bytes a w b by blast
qed

section \<open>Fetching a code from the mail service\<close>

text \<open>
  The first request of the polling loop, and the bounds on the whole loop: at most three
  requests, a pause of \<open>1000 * attempt\<close> milliseconds after each \<open>not_found\<close> answer
  that is not the third.
\<close>

lemma poll_loop_first:
  "poll_loop mail 0 [] =
     (case mail 1 of
        FetchThrows \<Rightarrow> (Nothing, \<lparr>polls = 1, sleeps = []\<rparr>)
      | TextThrows \<Rightarrow> (Threw, \<lparr>polls = 1, sleeps = []\<rparr>)
      | BodyNull \<Rightarrow> (Threw, \<lparr>polls = 1, sleeps = []\<rparr>)
      | Body st cd \<Rightarrow>
          (let status = toLowerCase (toString_js (or_else st (JStr [])))
           in if status = ''success'' then
                (let c = trim (toString_js (or_else cd (JStr [])))
                 in if c \<noteq> [] then (Got c, \<lparr>polls = 1, sleeps = []\<rparr>)
                    else (Nothing, \<lparr>polls = 1, sleeps = []\<rparr>))
              else if status = ''not_found'' then poll_loop mail 1 [1000]
              else (Nothing, \<lparr>polls = 1, sleeps = []\<rparr>)))"
  by (subst poll_loop.simps) (simp add: Let_def split: reply.splits)

lemma poll_trace_bounds:
  "attempts \<le> 3 \<Longrightarrow>
   polls (snd (poll_loop mail attempts slept)) \<le> 3 \<and>
   attempts \<le> polls (snd (poll_loop mail attempts slept)) \<and>
   (attempts < 3 \<longrightarrow> attempts < polls (snd (poll_loop mail attempts slept))) \<and>
   sleeps (snd (poll_loop mail attempts slept)) =
     slept @ map (\<lambda>k. 1000 * k) [attempts + 1 ..< polls (snd (poll_loop mail attempts slept))]"
proof (induction "3 - attempts" arbitrary: attempts slept)
  case 0
  then have "attempts = 3" by simp
  then have "poll_loop mail attempts slept = (Nothing, \<lparr>polls = attempts, sleeps = slept\<rparr>)"
    by (subst poll_loop.simps) simp
  then show ?case using \<open>attempts = 3\<close> by simp
next
  case (Suc n)
  then have lt: "attempts < 3" by simp
  have n: "n = 3 - (attempts + 1)" and le: "attempts + 1 \<le> 3" using Suc(2) lt by simp_all
  note IH = Suc(1) [OF n le, of "slept @ [1000 * (attempts + 1)]"]
  have stop: ?case if "poll_loop mail attempts slept = (r, \<lparr>polls = attempts + 1, sleeps = slept\<rparr>)" for r
    unfolding that using lt by simp
  show ?case
  proof (cases "mail (attempts + 1)")
    case FetchThrows
    have "poll_loop mail attempts slept = (Nothing, \<lparr>polls = attempts + 1, sleeps = slept\<rparr>)"
      using lt FetchThrows by (subst poll_loop.simps) simp
    then show ?thesis by (rule stop)
  next
    case TextThrows
    have "poll_loop mail attempts slept = (Threw, \<lparr>polls = attempts + 1, sleeps = slept\<rparr>)"
      using lt TextThrows by (subst poll_loop.simps) simp
    then show ?thesis by (rule stop)
  next
    case BodyNull
    have "poll_loop mail attempts slept = (Threw, \<lparr>polls = attempts + 1, sleeps = slept\<rparr>)"
      using lt BodyNull by (subst poll_loop.simps) simp
    then show ?thesis by (rule stop)
  next
    case (Body st cd)
    show ?thesis
    proof (cases "toLowerCase (toString_js (or_else st (JStr []))) = ''not_found'' \<and> attempts + 1 < 3")
      case True
      then have e: "poll_loop mail attempts slept =
          poll_loop mail (attempts + 1) (slept @ [1000 * (attempts + 1)])"
        using lt Body by (subst poll_loop.simps) (simp add: Let_def)
      have "attempts + 1 < polls (snd (poll_loop mail (attempts + 1) (slept @ [1000 * (attempts + 1)])))"
        using IH True by blast
      then have "[attempts + 1 ..< polls (snd (poll_loop mail (attempts + 1) (slept @ [1000 * (attempts + 1)])))] =
          (attempts + 1) # [attempts + 1 + 1 ..< polls (snd (poll_loop mail (attempts + 1) (slept @ [1000 * (attempts + 1)])))]"
        by (simp add: upt_conv_Cons)
      then show ?thesis
        unfolding e using IH by auto
    next
      case False
      then have "\<exists>r. poll_loop mail attempts slept = (r, \<lparr>polls = attempts + 1, sleeps = slept\<rparr>)"
        using lt Body by (subst poll_loop.simps) (auto simp: Let_def)
      then show ?thesis using stop by blast
    qed
  qed
qed

lemma window_after_set: "window_until_of (set_window d key v) key = (if v = 0 then Some 0 else Some v)"
  by (simp add: window_until_of_def set_window_def or_else_def)

lemma fetch_code_busy:
  "js_gt (window_until_of d key) (Some (now div 1000)) \<Longrightarrow>
   fetch_code mail now d normCode trx key = ((CodeBusy, d), \<lparr>polls = 0, sleeps = []\<rparr>)"
  by (simp add: fetch_code_def Let_def)

lemma fetch_code_clears_window:
  assumes "\<not> js_gt (window_until_of d key) (Some (now div 1000))"
    and "fst (poll_loop mail 0 []) \<noteq> Threw"
  shows "window_until_of (snd (fst (fetch_code mail now d normCode trx key))) key = Some 0"
    and "fst (fst (fetch_code mail now d normCode trx key)) =
           (case fst (poll_loop mail 0 []) of Got c \<Rightarrow> CodeOk c | _ \<Rightarrow> CodeNotFound)"
  using assms
  by (auto simp: fetch_code_def Let_def window_until_of_def set_window_def or_else_def
      split: prod.splits poll_result.splits)

lemma fetch_code_trace:
  "polls (snd (fetch_code mail now d normCode trx key)) \<le> 3 \<and>
   sleeps (snd (fetch_code mail now d normCode trx key)) =
     map (\<lambda>k. 1000 * k) [1 ..< polls (snd (fetch_code mail now d normCode trx key))]"
proof (cases "js_gt (window_until_of d key) (Some (now div 1000))")
  case True
  then show ?thesis by (simp add: fetch_code_busy)
next
  case False
  have "snd (fetch_code mail now d normCode trx key) = snd (poll_loop mail 0 [])"
    using False
    by (auto simp: fetch_code_def Let_def split: prod.splits poll_result.splits)
  then show ?thesis
    using poll_trace_bounds [of 0 mail "[]"] by simp
qed

lemma fetch_code_exception_leaves_window:
  assumes "\<not> js_gt (window_until_of d key) (Some (now div 1000))"
    and "mail 1 = BodyNull \<or> mail 1 = TextThrows"
  shows "fetch_code mail now d normCode trx key =
           ((Failure 500 ''Internal error'', set_window d key (now div 1000 + 90)),
            \<lparr>polls = 1, sleeps = []\<rparr>)"
  using assms by (auto simp: fetch_code_def Let_def poll_loop_first)

text \<open>
  C8 (the window is cleared before the route returns, whatever the mail service does).
  The lease \<open>OORABC123\<close> is valid and bound to a credential with an email, and no fetch
  is in flight for its platform. The mail service answers the first request with the
  body \<open>null\<close>. Reading \<open>payload.status\<close> then raises outside the inner \<open>try\<close>; the
  route answers with the status 500 after one request, and the window of the platform
  still holds the time of the request plus 90 seconds.
\<close>

theorem get_code_window_left_set:
  "window_until_of ex_db_leased ''netflix'' = Some 0 \<and>
   fst (fst (account_get_code (\<lambda>n. BodyNull) ex_pd ex_now ex_db_leased ''OORABC123'')) =
     Failure 500 ''Internal error'' \<and>
   snd (account_get_code (\<lambda>n. BodyNull) ex_pd ex_now ex_db_leased ''OORABC123'') =
     \<lparr>polls = 1, sleeps = []\<rparr> \<and>
   window_until_of
     (snd (fst (account_get_code (\<lambda>n. BodyNull) ex_pd ex_now ex_db_leased ''OORABC123'')))
     ''netflix'' = Some (ex_now div 1000 + 90) \<and>
   window_until_of
     (snd (fst (account_get_code (\<lambda>n. FetchThrows) ex_pd ex_now ex_db_leased ''OORABC123'')))
     ''netflix'' = Some 0"
proof -
  have 1: "window_until_of ex_db_leased ''netflix'' = Some 0"
    by code_simp
  have 2: "fst (fst (account_get_code (\<lambda>n. BodyNull) ex_pd ex_now ex_db_leased ''OORABC123'')) =
     Failure 500 ''Internal error''"
    by code_simp
  have 3: "snd (account_get_code (\<lambda>n. BodyNull) ex_pd ex_now ex_db_leased ''OORABC123'') =
     \<lparr>polls = 1, sleeps = []\<rparr>"
    by code_simp
  have 4: "window_until_of
     (snd (fst (account_get_code (\<lambda>n. BodyNull) ex_pd ex_now ex_db_leased ''OORABC123'')))
     ''netflix'' = Some (ex_now div 1000 + 90)"
    by code_simp
  have 5: "window_until_of
     (snd (fst (account_get_code (\<lambda>n. FetchThrows) ex_pd ex_now ex_db_leased ''OORABC123'')))
     ''netflix'' = Some 0"
    by code_simp
  show ?thesis
    using 1 2 3 4 5 by blast
qed

section \<open>Normalising the presented code\<close>




lemma toUpperCase_append: "toUpperCase (x @ y) = toUpperCase x @ toUpperCase y"
  by (simp add: toUpperCase_def)




































end
